theory Spec2Isabelle
  imports Complex_Main "HOL-Library.Log_Nat"
begin

section \<open>Numbers and rectangles\<close>

text \<open>
  The TypeScript sources compute on \<^verbatim>\<open>number\<close>, the double of IEEE 754. A number
  is read as the \<^typ>\<open>real\<close> that it denotes; NaN and the infinities are not
  values of the embedding.

  The live detection path (the fast estimator, the smoother, the coordinate mappers,
  the detection box and the detection loop) is computed as the sources compute it:
  every arithmetic operation is the exact operation followed by the rounding \<open>fl\<close> to
  a double, and a decimal literal \<^verbatim>\<open>0.18\<close> of the sources is the double
  \<open>fl 0.18\<close>. What is proved of that path holds for the doubles themselves.

  The crop computations, the heuristic \<^verbatim>\<open>detectTextArea\<close> and the density
  estimator are computed in exact arithmetic. What is proved of them does not rest on
  the last bit of a result: which rectangle is returned, that the cropper receives
  whole numbers within the photo (established by comparisons and \<^verbatim>\<open>Math.round\<close>
  after the arithmetic), and bounds that hold with a margin of a fixed fraction of
  the screen.
\<close>

subsection \<open>Doubles\<close>

text \<open>
  The binary exponent of a positive number: \<open>2 powi expo v \<le> v < 2 powi (expo v + 1)\<close>.
\<close>

definition expo :: "real \<Rightarrow> int" where
  "expo v = (if 1 \<le> v then bitlen \<lfloor>v\<rfloor> - 1 else - bitlen (\<lceil>1 / v\<rceil> - 1))"

text \<open>The nearest integer, a tie going to the even one.\<close>

definition rne :: "real \<Rightarrow> int" where
  "rne v =
     (let f = \<lfloor>v\<rfloor>; d = v - of_int f
      in if d < 1 / 2 then f else if 1 / 2 < d then f + 1 else if even f then f else f + 1)"

text \<open>
  Rounding to the nearest number with a significand of 53 bits, ties to even: the
  rounding of double arithmetic. The exponent is not bounded, so \<open>fl\<close> is the rounding
  of the sources wherever the result neither overflows nor falls into the subnormal
  range, that is for results of magnitude from \<open>2 powi - 1022\<close> to below \<open>2 ^ 1024\<close>,
  and for zero.
\<close>

definition fl :: "real \<Rightarrow> real" where
  "fl v =
     (if v = 0 then 0
      else (let q = 2 powi (expo \<bar>v\<bar> - 52) in of_int (rne (v / q)) * q))"

text \<open>The four operations of the sources on doubles.\<close>

definition js_add :: "real \<Rightarrow> real \<Rightarrow> real" where
  "js_add a b = fl (a + b)"

definition js_sub :: "real \<Rightarrow> real \<Rightarrow> real" where
  "js_sub a b = fl (a - b)"

definition js_mul :: "real \<Rightarrow> real \<Rightarrow> real" where
  "js_mul a b = fl (a * b)"

definition js_div :: "real \<Rightarrow> real \<Rightarrow> real" where
  "js_div a b = fl (a / b)"

text \<open>
  The numbers that the theorems on the detection path range over: a double that is
  zero or of magnitude between \<open>2 powi - 500\<close> and \<open>2 ^ 500\<close>. A sum, difference,
  product or quotient of two such numbers does not overflow, and it is subnormal only
  where it is exact. Where a longer chain can reach the subnormal range (a small
  coordinate times a small scale in the mappers) the result goes to \<^verbatim>\<open>Math.round\<close>
  only, which gives 0 for it in the sources as in the embedding.
\<close>

definition js_number :: "real \<Rightarrow> bool" where
  "js_number v \<longleftrightarrow> fl v = v \<and> (v = 0 \<or> (2 powi (- 500) \<le> \<bar>v\<bar> \<and> \<bar>v\<bar> \<le> 2 ^ 500))"

subsection \<open>Rounding to an integer, and rectangles\<close>

text \<open>
  \<^verbatim>\<open>Math.round\<close>: the nearest integer, a tie going towards plus infinity. It is
  exact: the nearest integer of a double is a double.
\<close>

definition js_round :: "real \<Rightarrow> real" where
  "js_round v = of_int \<lfloor>v + 1 / 2\<rfloor>"

text \<open>A number is whole: it has no fractional part.\<close>

definition whole :: "real \<Rightarrow> bool" where
  "whole v \<longleftrightarrow> real_of_int \<lfloor>v\<rfloor> = v"

text \<open>
  \<^verbatim>\<open>type DetectionRect = { x; y; width; height }\<close> (and \<^verbatim>\<open>Rect\<close>, the same
  shape). The fields carry the prefix \<open>rect_\<close>.
\<close>

record rect =
  rect_x :: real
  rect_y :: real
  rect_width :: real
  rect_height :: real

text \<open>The shape \<^verbatim>\<open>{ originX; originY; width; height }\<close> handed to the image cropper.\<close>

record crop_rect =
  originX :: real
  originY :: real
  crop_width :: real
  crop_height :: real

text \<open>A rectangle whose four fields are numbers of the detection path.\<close>

definition js_rect :: "rect \<Rightarrow> bool" where
  "js_rect r \<longleftrightarrow>
     js_number (rect_x r) \<and> js_number (rect_y r) \<and>
     js_number (rect_width r) \<and> js_number (rect_height r)"

text \<open>
  A whole number of magnitude at most \<open>2 ^ 52\<close>, as pixel coordinates are, and a
  rectangle of such numbers. Sums and differences of two of them are exact in double
  arithmetic.
\<close>

definition pixel :: "real \<Rightarrow> bool" where
  "pixel v \<longleftrightarrow> whole v \<and> \<bar>v\<bar> \<le> 2 ^ 52"

definition pixel_rect :: "rect \<Rightarrow> bool" where
  "pixel_rect r \<longleftrightarrow>
     pixel (rect_x r) \<and> pixel (rect_y r) \<and> pixel (rect_width r) \<and> pixel (rect_height r)"


section \<open>Real-time detection (utils/realtimeDetection)\<close>

text \<open>
  The optional argument of \<^verbatim>\<open>detectQuestionAreaFast\<close>: the object itself may be
  absent, and so may each of its fields.
\<close>

record fast_options =
  verticalBias :: "real option"
  widthRatio :: "real option"
  heightRatio :: "real option"

definition or_default :: "'a option \<Rightarrow> 'a \<Rightarrow> 'a" where
  "or_default v d = (case v of None \<Rightarrow> d | Some a \<Rightarrow> a)"

definition no_options :: fast_options where
  "no_options = \<lparr>verticalBias = None, widthRatio = None, heightRatio = None\<rparr>"

text \<open>
  A field of the options that is left out, or that holds a number of the detection
  path between 0 and 1, as the comments of the source ask of all three.
\<close>

definition ratio_option :: "real option \<Rightarrow> bool" where
  "ratio_option v \<longleftrightarrow>
     (case v of None \<Rightarrow> True | Some x \<Rightarrow> js_number x \<and> 0 \<le> x \<and> x \<le> 1)"

definition detectQuestionAreaFast :: "real \<Rightarrow> real \<Rightarrow> fast_options option \<Rightarrow> rect" where
  "detectQuestionAreaFast previewWidth previewHeight options =
     (let opts = or_default options no_options;
          vBias = or_default (verticalBias opts) (fl 0.18);
          wRatio = or_default (widthRatio opts) (fl 0.65);
          hRatio = or_default (heightRatio opts) (fl 0.10);
          boxWidth = js_mul previewWidth wRatio;
          boxHeight = min (js_mul previewHeight hRatio) 100;
          boxX = js_div (js_sub previewWidth boxWidth) 2;
          boxY = js_sub (js_mul previewHeight vBias) (js_div boxHeight 2);
          clampedX = max 0 (min boxX (js_sub previewWidth boxWidth));
          clampedY = max 0 (min boxY (js_sub previewHeight boxHeight))
      in \<lparr>rect_x = clampedX, rect_y = clampedY,
          rect_width = boxWidth, rect_height = boxHeight\<rparr>)"

text \<open>\<^verbatim>\<open>smoothBoxTransition\<close>; \<open>None\<close> is the \<^verbatim>\<open>null\<close> current box.\<close>

definition smoothBoxTransition :: "rect option \<Rightarrow> rect \<Rightarrow> real \<Rightarrow> rect" where
  "smoothBoxTransition currentBox newBox smoothingFactor =
     (case currentBox of
        None \<Rightarrow> newBox
      | Some cur \<Rightarrow>
          \<lparr>rect_x =
             js_add (rect_x cur)
               (js_mul (js_sub (rect_x newBox) (rect_x cur)) smoothingFactor),
           rect_y =
             js_add (rect_y cur)
               (js_mul (js_sub (rect_y newBox) (rect_y cur)) smoothingFactor),
           rect_width =
             js_add (rect_width cur)
               (js_mul (js_sub (rect_width newBox) (rect_width cur)) smoothingFactor),
           rect_height =
             js_add (rect_height cur)
               (js_mul (js_sub (rect_height newBox) (rect_height cur)) smoothingFactor)\<rparr>)"

definition mapPreviewBoxToImageCoords ::
  "rect \<Rightarrow> real \<Rightarrow> real \<Rightarrow> real \<Rightarrow> real \<Rightarrow> crop_rect" where
  "mapPreviewBoxToImageCoords previewBox previewWidth previewHeight imageWidth imageHeight =
     (let scaleX = js_div imageWidth previewWidth;
          scaleY = js_div imageHeight previewHeight
      in \<lparr>originX = js_round (js_mul (rect_x previewBox) scaleX),
          originY = js_round (js_mul (rect_y previewBox) scaleY),
          crop_width = js_round (js_mul (rect_width previewBox) scaleX),
          crop_height = js_round (js_mul (rect_height previewBox) scaleY)\<rparr>)"

definition isValidBox :: "rect \<Rightarrow> real \<Rightarrow> real \<Rightarrow> bool" where
  "isValidBox box containerWidth containerHeight \<longleftrightarrow>
     rect_x box \<ge> 0 \<and> rect_y box \<ge> 0 \<and> rect_width box > 0 \<and> rect_height box > 0 \<and>
     js_add (rect_x box) (rect_width box) \<le> containerWidth \<and>
     js_add (rect_y box) (rect_height box) \<le> containerHeight"

section \<open>Image utilities (utils/imageUtils): the coordinate mapper\<close>

definition mapScreenRectToImage ::
  "rect \<Rightarrow> real \<Rightarrow> real \<Rightarrow> real \<Rightarrow> real \<Rightarrow> crop_rect" where
  "mapScreenRectToImage r screenW screenH imageW imageH =
     (let scaleX = js_div imageW screenW;
          scaleY = js_div imageH screenH
      in \<lparr>originX = js_round (js_mul (rect_x r) scaleX),
          originY = js_round (js_mul (rect_y r) scaleY),
          crop_width = js_round (js_mul (rect_width r) scaleX),
          crop_height = js_round (js_mul (rect_height r) scaleY)\<rparr>)"

text \<open>
  The mapper returns the cropper's shape; to map a second time its result is read
  back as a rectangle, field by field.
\<close>

definition as_rect :: "crop_rect \<Rightarrow> rect" where
  "as_rect c = \<lparr>rect_x = originX c, rect_y = originY c,
                rect_width = crop_width c, rect_height = crop_height c\<rparr>"

text \<open>Mapping from a space A to a space B and back.\<close>

definition round_trip :: "rect \<Rightarrow> real \<Rightarrow> real \<Rightarrow> real \<Rightarrow> real \<Rightarrow> rect" where
  "round_trip r fromW fromH toW toH =
     as_rect (mapScreenRectToImage
       (as_rect (mapScreenRectToImage r fromW fromH toW toH)) toW toH fromW fromH)"

text \<open>
  What the round trip does to one field \<open>v\<close> on an axis of length \<open>a\<close> in A and \<open>b\<close>
  in B.
\<close>

definition there_and_back :: "real \<Rightarrow> real \<Rightarrow> real \<Rightarrow> real" where
  "there_and_back v a b =
     js_round (js_mul (js_round (js_mul v (js_div b a))) (js_div a b))"


section \<open>The detection box component (components/AutoDetectionBox)\<close>

definition MIN_BOX_SIZE :: real where
  "MIN_BOX_SIZE = 80"

definition MAX_BOX_WIDTH_RATIO :: real where
  "MAX_BOX_WIDTH_RATIO = fl 0.95"

definition MAX_BOX_HEIGHT_RATIO :: real where
  "MAX_BOX_HEIGHT_RATIO = fl 0.4"

text \<open>
  \<^verbatim>\<open>clampBox\<close> closes over the container size of the component's props; here the
  two dimensions are its first arguments.
\<close>

definition clampBox :: "real \<Rightarrow> real \<Rightarrow> real \<Rightarrow> real \<Rightarrow> real \<Rightarrow> real \<Rightarrow> rect" where
  "clampBox containerWidth containerHeight x y w h =
     (let maxWidth = js_mul containerWidth MAX_BOX_WIDTH_RATIO;
          maxHeight = js_mul containerHeight MAX_BOX_HEIGHT_RATIO;
          clampedW = max MIN_BOX_SIZE (min w maxWidth);
          clampedH = max MIN_BOX_SIZE (min h maxHeight);
          clampedX = max 0 (min x (js_sub containerWidth clampedW));
          clampedY = max 0 (min y (js_sub containerHeight clampedH))
      in \<lparr>rect_x = clampedX, rect_y = clampedY,
          rect_width = clampedW, rect_height = clampedH\<rparr>)"

text \<open>
  The shared values of the component and its \<^verbatim>\<open>isInteracting\<close> ref. The spring
  animation that moves the box towards a new detection is not modelled: a gesture may
  start from any values.
\<close>

record box_values =
  boxLeft :: real
  boxTop :: real
  boxWidth :: real
  boxHeight :: real
  startLeft :: real
  startTop :: real
  startWidth :: real
  startHeight :: real
  isInteracting :: bool

text \<open>
  The shared values once the springs have come to rest on the box of the props, the
  start values still at their initial zero.
\<close>

definition at_rest :: "rect \<Rightarrow> box_values" where
  "at_rest b =
     \<lparr>boxLeft = rect_x b, boxTop = rect_y b, boxWidth = rect_width b,
      boxHeight = rect_height b, startLeft = 0, startTop = 0, startWidth = 0,
      startHeight = 0, isInteracting = False\<rparr>"

text \<open>The rectangle that \<^verbatim>\<open>onEnd\<close> passes to \<^verbatim>\<open>onBoxChange\<close>.\<close>

definition box_of :: "box_values \<Rightarrow> rect" where
  "box_of s = \<lparr>rect_x = boxLeft s, rect_y = boxTop s,
               rect_width = boxWidth s, rect_height = boxHeight s\<rparr>"



definition gesture_onEnd :: "box_values \<Rightarrow> rect \<times> box_values" where
  "gesture_onEnd s = (box_of s, s\<lparr>isInteracting := False\<rparr>)"

datatype corner = TL | TR | BL | BR

text \<open>\<^verbatim>\<open>createCornerGesture\<close>: start and update (its end is \<open>gesture_onEnd\<close>).\<close>

definition corner_onStart :: "box_values \<Rightarrow> box_values" where
  "corner_onStart s =
     s\<lparr>startLeft := boxLeft s, startTop := boxTop s,
       startWidth := boxWidth s, startHeight := boxHeight s, isInteracting := True\<rparr>"

definition corner_raw :: "corner \<Rightarrow> real \<Rightarrow> real \<Rightarrow> box_values \<Rightarrow> rect" where
  "corner_raw c translationX translationY s =
     (case c of
        TL \<Rightarrow> \<lparr>rect_x = js_add (startLeft s) translationX,
               rect_y = js_add (startTop s) translationY,
               rect_width = js_sub (startWidth s) translationX,
               rect_height = js_sub (startHeight s) translationY\<rparr>
      | TR \<Rightarrow> \<lparr>rect_x = startLeft s,
               rect_y = js_add (startTop s) translationY,
               rect_width = js_add (startWidth s) translationX,
               rect_height = js_sub (startHeight s) translationY\<rparr>
      | BL \<Rightarrow> \<lparr>rect_x = js_add (startLeft s) translationX,
               rect_y = startTop s,
               rect_width = js_sub (startWidth s) translationX,
               rect_height = js_add (startHeight s) translationY\<rparr>
      | BR \<Rightarrow> \<lparr>rect_x = startLeft s,
               rect_y = startTop s,
               rect_width = js_add (startWidth s) translationX,
               rect_height = js_add (startHeight s) translationY\<rparr>)"

definition corner_onUpdate ::
  "corner \<Rightarrow> real \<Rightarrow> real \<Rightarrow> real \<Rightarrow> real \<Rightarrow> box_values \<Rightarrow> box_values" where
  "corner_onUpdate c containerWidth containerHeight translationX translationY s =
     (let new = corner_raw c translationX translationY s;
          clamped = clampBox containerWidth containerHeight
                      (rect_x new) (rect_y new) (rect_width new) (rect_height new)
      in s\<lparr>boxLeft := rect_x clamped, boxTop := rect_y clamped,
           boxWidth := rect_width clamped, boxHeight := rect_height clamped\<rparr>)"


definition corner_gesture ::
  "corner \<Rightarrow> real \<Rightarrow> real \<Rightarrow> (real \<times> real) list \<Rightarrow> box_values \<Rightarrow> rect" where
  "corner_gesture c containerWidth containerHeight events s =
     fst (gesture_onEnd
       (fold (\<lambda>(tx, ty). corner_onUpdate c containerWidth containerHeight tx ty) events
          (corner_onStart s)))"

text \<open>
  The corner that a resize by handle \<open>c\<close> is meant to leave in place: the one
  diagonally opposite.
\<close>

definition anchor :: "corner \<Rightarrow> rect \<Rightarrow> real \<times> real" where
  "anchor c r =
     (case c of
        TL \<Rightarrow> (rect_x r + rect_width r, rect_y r + rect_height r)
      | TR \<Rightarrow> (rect_x r, rect_y r + rect_height r)
      | BL \<Rightarrow> (rect_x r + rect_width r, rect_y r)
      | BR \<Rightarrow> (rect_x r, rect_y r))"

text \<open>A rectangle lies fully inside a container of the given size.\<close>

definition inside :: "rect \<Rightarrow> real \<Rightarrow> real \<Rightarrow> bool" where
  "inside r containerWidth containerHeight \<longleftrightarrow>
     0 \<le> rect_x r \<and> 0 \<le> rect_y r \<and>
     rect_x r + rect_width r \<le> containerWidth \<and>
     rect_y r + rect_height r \<le> containerHeight"

section \<open>The camera screen with the live detection box (screens/CameraScreen)\<close>

record camera_state =
  isReady :: bool
  isAutoDetecting :: bool
  detectedBox :: "rect option"
  isBoxLocked :: bool
  isUserInteracting :: bool
  lastDetectedBoxRef :: "rect option"
  manualBoxRef :: "rect option"


definition POSITION_THRESHOLD :: real where
  "POSITION_THRESHOLD = 5"

definition SIZE_THRESHOLD :: real where
  "SIZE_THRESHOLD = 10"

text \<open>\<^verbatim>\<open>runDetection\<close>, one tick of the detection loop, on a screen of the given size.\<close>

definition runDetection :: "real \<Rightarrow> real \<Rightarrow> camera_state \<Rightarrow> camera_state" where
  "runDetection SCREEN_WIDTH SCREEN_HEIGHT s =
     (let previewTop = 120;
          previewBottom = 100;
          previewHeight = js_sub (js_sub SCREEN_HEIGHT previewTop) previewBottom;
          previewWidth = SCREEN_WIDTH
      in case manualBoxRef s of
           Some manual \<Rightarrow> s\<lparr>detectedBox := Some manual\<rparr>
         | None \<Rightarrow>
             (let newBox = detectQuestionAreaFast previewWidth previewHeight
                    (Some \<lparr>verticalBias = Some (fl 0.18), widthRatio = Some (fl 0.65),
                           heightRatio = Some (fl 0.10)\<rparr>);
                  adjustedBox = newBox\<lparr>rect_y := js_add (rect_y newBox) previewTop\<rparr>;
                  tooSmall =
                    (case lastDetectedBoxRef s of
                       None \<Rightarrow> False
                     | Some lastBox \<Rightarrow>
                         \<bar>js_sub (rect_x adjustedBox) (rect_x lastBox)\<bar> < POSITION_THRESHOLD \<and>
                         \<bar>js_sub (rect_y adjustedBox) (rect_y lastBox)\<bar> < POSITION_THRESHOLD \<and>
                         \<bar>js_sub (rect_width adjustedBox) (rect_width lastBox)\<bar> < SIZE_THRESHOLD \<and>
                         \<bar>js_sub (rect_height adjustedBox) (rect_height lastBox)\<bar> < SIZE_THRESHOLD)
              in if tooSmall then s
                 else (let smoothedBox =
                             smoothBoxTransition (lastDetectedBoxRef s) adjustedBox (fl 0.4)
                       in s\<lparr>lastDetectedBoxRef := Some smoothedBox,
                            detectedBox := Some smoothedBox\<rparr>)))"

text \<open>The loop runs a tick only while its effect's guard holds.\<close>

definition detection_tick :: "real \<Rightarrow> real \<Rightarrow> camera_state \<Rightarrow> camera_state" where
  "detection_tick SCREEN_WIDTH SCREEN_HEIGHT s =
     (if \<not> isReady s \<or> \<not> isAutoDetecting s \<or> isBoxLocked s \<or> isUserInteracting s then s
      else runDetection SCREEN_WIDTH SCREEN_HEIGHT s)"

definition handleInteractionStart :: "camera_state \<Rightarrow> camera_state" where
  "handleInteractionStart s = s\<lparr>isUserInteracting := True\<rparr>"

definition handleInteractionEnd :: "camera_state \<Rightarrow> camera_state" where
  "handleInteractionEnd s = s\<lparr>isUserInteracting := False\<rparr>"


text \<open>
  The four assignments by which \<^verbatim>\<open>onCapture\<close> brings the mapped rectangle within
  the photo: first the origin, then the size.
\<close>

definition clamp_cropRect :: "real \<Rightarrow> real \<Rightarrow> crop_rect \<Rightarrow> crop_rect" where
  "clamp_cropRect photoWidth photoHeight cropRect =
     (let oX = max 0 (min (originX cropRect) (photoWidth - crop_width cropRect));
          oY = max 0 (min (originY cropRect) (photoHeight - crop_height cropRect));
          w = min (crop_width cropRect) (photoWidth - oX);
          h = min (crop_height cropRect) (photoHeight - oY)
      in \<lparr>originX = oX, originY = oY, crop_width = w, crop_height = h\<rparr>)"

text \<open>
  \<^verbatim>\<open>onCapture\<close>, the part that computes the crop rectangle from the box on screen.
  \<open>None\<close> is the \<^verbatim>\<open>null\<close> rectangle (no box, or detection switched off).
\<close>

definition onCapture_cropRect ::
  "real \<Rightarrow> real \<Rightarrow> real \<Rightarrow> real \<Rightarrow> camera_state \<Rightarrow> crop_rect option" where
  "onCapture_cropRect SCREEN_WIDTH SCREEN_HEIGHT photoWidth photoHeight s =
     (let boxToUse = (case manualBoxRef s of Some m \<Rightarrow> Some m | None \<Rightarrow> detectedBox s)
      in case boxToUse of
           None \<Rightarrow> None
         | Some box \<Rightarrow>
             if \<not> isAutoDetecting s then None
             else
               (let photoAspect = photoWidth / photoHeight;
                    previewAspect = SCREEN_WIDTH / SCREEN_HEIGHT;
                    wider = photoAspect > previewAspect;
                    scaleX = (if wider then photoHeight / SCREEN_HEIGHT
                              else photoWidth / SCREEN_WIDTH);
                    scaleY = scaleX;
                    offsetX = (if wider then (photoWidth - SCREEN_WIDTH * scaleX) / 2 else 0);
                    offsetY = (if wider then 0 else (photoHeight - SCREEN_HEIGHT * scaleY) / 2);
                    cropRect =
                      \<lparr>originX = js_round (rect_x box * scaleX + offsetX),
                       originY = js_round (rect_y box * scaleY + offsetY),
                       crop_width = js_round (rect_width box * scaleX),
                       crop_height = js_round (rect_height box * scaleY)\<rparr>
                in Some (clamp_cropRect photoWidth photoHeight cropRect)))"

text \<open>
  The rectangle with which \<^verbatim>\<open>onCapture\<close> calls the cropper, \<open>None\<close> when it does
  not call it.
\<close>

definition onCapture_crop_call ::
  "real \<Rightarrow> real \<Rightarrow> real \<Rightarrow> real \<Rightarrow> camera_state \<Rightarrow> crop_rect option" where
  "onCapture_crop_call SCREEN_WIDTH SCREEN_HEIGHT photoWidth photoHeight s =
     (case onCapture_cropRect SCREEN_WIDTH SCREEN_HEIGHT photoWidth photoHeight s of
        None \<Rightarrow> None
      | Some cropRect \<Rightarrow>
          if crop_width cropRect > 0 \<and> crop_height cropRect > 0 then Some cropRect else None)"

section \<open>Image utilities (utils/imageUtils): the heuristic and the density estimator\<close>

datatype vertical_position = PosTop | PosCenter | PosUpperCenter

record text_area_options =
  topOffset :: "real option"
  bottomOffset :: "real option"
  area_widthRatio :: "real option"
  area_heightRatio :: "real option"
  verticalPosition :: "vertical_position option"

definition no_area_options :: text_area_options where
  "no_area_options =
     \<lparr>topOffset = None, bottomOffset = None, area_widthRatio = None,
      area_heightRatio = None, verticalPosition = None\<rparr>"

definition detectTextArea :: "real \<Rightarrow> real \<Rightarrow> text_area_options option \<Rightarrow> rect" where
  "detectTextArea screenWidth screenHeight options =
     (let opts = or_default options no_area_options;
          topOff = or_default (topOffset opts) 120;
          bottomOff = or_default (bottomOffset opts) 120;
          wRatio = or_default (area_widthRatio opts) 0.85;
          hRatio = or_default (area_heightRatio opts) 0.4;
          vPosition = or_default (verticalPosition opts) PosUpperCenter;
          documentTop = topOff;
          documentBottom = screenHeight - bottomOff;
          documentHeight = documentBottom - documentTop;
          cropWidth = screenWidth * wRatio;
          cropHeight = min (documentHeight * hRatio) (screenWidth * 0.5);
          cropX = (screenWidth - cropWidth) / 2;
          cropY = (case vPosition of
                     PosTop \<Rightarrow> documentTop + documentHeight * 0.05
                   | PosCenter \<Rightarrow> documentTop + (documentHeight - cropHeight) / 2
                   | PosUpperCenter \<Rightarrow> documentTop + documentHeight * 0.15)
      in \<lparr>rect_x = cropX, rect_y = cropY, rect_width = cropWidth, rect_height = cropHeight\<rparr>)"

text \<open>
  \<^verbatim>\<open>analyzeTextDensity\<close>. Its grid and its density map do not depend on the
  arguments of the function, so they are constants here. Rows and columns are
  integers; the map is a list of rows, read at \<open>nat row\<close> and \<open>nat col\<close>, and every
  read of the source is within the 40 by 30 grid.
\<close>

definition gridRows :: int where
  "gridRows = 40"

definition gridCols :: int where
  "gridCols = 30"

definition cell_density :: "int \<Rightarrow> int \<Rightarrow> real" where
  "cell_density row col =
     (let verticalPos = real_of_int row / real_of_int gridRows;
          horizontalPos = real_of_int col / real_of_int gridCols;
          vDensity =
            (if verticalPos \<ge> 0.22 \<and> verticalPos \<le> 0.42
             then (let distanceFromOptimal = \<bar>0.32 - verticalPos\<bar>
                   in max 0 (1.0 - distanceFromOptimal * 15.0))
             else 0);
          hDensity =
            (if horizontalPos \<ge> 0.10 \<and> horizontalPos \<le> 0.90
             then 1.0 - \<bar>0.5 - horizontalPos\<bar> * 1.2
             else 0)
      in max 0 (vDensity * hDensity))"

definition densityMap :: "real list list" where
  "densityMap =
     map (\<lambda>row. map (\<lambda>col. cell_density row col) [0..gridCols - 1]) [0..gridRows - 1]"

text \<open>\<^verbatim>\<open>Math.max(...densityMap.flat())\<close>, on a list that has 1200 elements.\<close>

definition maxDensity :: real where
  "maxDensity = (let flat = concat densityMap in foldl max (hd flat) (tl flat))"

definition rowDensity :: "int \<Rightarrow> real" where
  "rowDensity row =
     foldl (\<lambda>sum val. sum + val) 0 (densityMap ! nat row) / real_of_int gridCols"

definition colDensity :: "int \<Rightarrow> real" where
  "colDensity col =
     foldl (\<lambda>sum row. sum + row ! nat col) 0 densityMap / real_of_int gridRows"

text \<open>The four scanning loops; \<open>find\<close> stops at the first hit, as \<^verbatim>\<open>break\<close> does.\<close>

definition topBoundary_scan :: "real \<Rightarrow> int" where
  "topBoundary_scan densityThreshold =
     (let start = \<lfloor>real_of_int gridRows * 0.15\<rfloor>
      in case find (\<lambda>row. rowDensity row > densityThreshold)
                [start..\<lfloor>real_of_int gridRows * 0.6\<rfloor> - 1] of
           None \<Rightarrow> start
         | Some row \<Rightarrow> max 0 row)"

fun bottom_loop :: "real \<Rightarrow> int \<Rightarrow> int \<Rightarrow> int list \<Rightarrow> int" where
  "bottom_loop densityThreshold topBoundary bottomBoundary [] = bottomBoundary"
| "bottom_loop densityThreshold topBoundary bottomBoundary (row # rows) =
     (if rowDensity row > densityThreshold
      then bottom_loop densityThreshold topBoundary row rows
      else if row > topBoundary + 2 then bottomBoundary
      else bottom_loop densityThreshold topBoundary bottomBoundary rows)"

definition bottomBoundary_scan :: "real \<Rightarrow> int \<Rightarrow> int" where
  "bottomBoundary_scan densityThreshold topBoundary =
     bottom_loop densityThreshold topBoundary
       (topBoundary + \<lfloor>real_of_int gridRows * 0.10\<rfloor>)
       [topBoundary + 1..
          min (topBoundary + \<lfloor>real_of_int gridRows * 0.15\<rfloor>) (gridRows - 1)]"

definition leftBoundary_scan :: "real \<Rightarrow> int" where
  "leftBoundary_scan densityThreshold =
     (case find (\<lambda>col. colDensity col > densityThreshold) [0..gridCols - 1] of
        None \<Rightarrow> 0
      | Some col \<Rightarrow> max 0 (col - 1))"

definition rightBoundary_scan :: "real \<Rightarrow> int \<Rightarrow> int" where
  "rightBoundary_scan densityThreshold leftBoundary =
     (case find (\<lambda>col. colDensity col > densityThreshold)
             (rev [leftBoundary..gridCols - 1]) of
        None \<Rightarrow> gridCols - 1
      | Some col \<Rightarrow> min (gridCols - 1) (col + 1))"

text \<open>The two limits: at most 12 percent of the rows, at most 34 percent of the columns.\<close>

definition limit_rows :: "int \<Rightarrow> int \<Rightarrow> int" where
  "limit_rows topBoundary bottomBoundary =
     (let detectedRows = bottomBoundary - topBoundary + 1
      in if real_of_int detectedRows > real_of_int gridRows * 0.12
         then topBoundary + \<lfloor>real_of_int gridRows * 0.12\<rfloor>
         else bottomBoundary)"

definition limit_cols :: "int \<Rightarrow> int \<Rightarrow> int \<times> int" where
  "limit_cols leftBoundary rightBoundary =
     (let detectedCols = rightBoundary - leftBoundary + 1;
          maxAllowedCols = \<lfloor>real_of_int gridCols * 0.34\<rfloor>
      in if detectedCols > maxAllowedCols
         then (let center = \<lfloor>real_of_int (leftBoundary + rightBoundary) / 2\<rfloor>;
                   halfWidth = \<lfloor>real_of_int maxAllowedCols / 2\<rfloor>;
                   left1 = max 0 (center - halfWidth);
                   right1 = min (gridCols - 1) (left1 + maxAllowedCols - 1)
               in if right1 \<ge> gridCols - 1
                  then (max 0 (gridCols - 1 - maxAllowedCols + 1), gridCols - 1)
                  else (left1, right1))
         else (leftBoundary, rightBoundary))"

text \<open>The boundaries top, bottom, left, right in grid cells, after both limits.\<close>

definition grid_bounds :: "int \<times> int \<times> int \<times> int" where
  "grid_bounds =
     (let densityThreshold = maxDensity * 0.20;
          topBoundary = topBoundary_scan densityThreshold;
          bottomBoundary = bottomBoundary_scan densityThreshold topBoundary;
          leftBoundary = leftBoundary_scan densityThreshold;
          rightBoundary = rightBoundary_scan densityThreshold leftBoundary;
          bottomBoundary' = limit_rows topBoundary bottomBoundary;
          (leftBoundary', rightBoundary') = limit_cols leftBoundary rightBoundary
      in (topBoundary, bottomBoundary', leftBoundary', rightBoundary'))"

text \<open>From grid cells to the rectangle on screen: everything after the scans.\<close>

definition density_rect :: "real \<Rightarrow> real \<Rightarrow> real \<Rightarrow> real \<Rightarrow> real \<Rightarrow> real \<Rightarrow> rect" where
  "density_rect analysisWidth analysisHeight imageWidth imageHeight screenWidth screenHeight =
     (let cellWidth = analysisWidth / real_of_int gridCols;
          cellHeight = analysisHeight / real_of_int gridRows;
          (topBoundary, bottomBoundary, leftBoundary, rightBoundary) = grid_bounds;
          detectedX = real_of_int leftBoundary * cellWidth;
          detectedY = real_of_int topBoundary * cellHeight;
          detectedWidth = real_of_int (rightBoundary - leftBoundary) * cellWidth;
          detectedHeight = real_of_int (bottomBoundary - topBoundary) * cellHeight;
          scaleX = imageWidth / analysisWidth;
          scaleY = imageHeight / analysisHeight;
          imageX = detectedX * scaleX;
          imageY = detectedY * scaleY;
          imageW = detectedWidth * scaleX;
          imageH = detectedHeight * scaleY;
          screenScaleX = screenWidth / imageWidth;
          screenScaleY = screenHeight / imageHeight;
          paddingX = imageW * 0.02;
          paddingY = imageH * 0.02;
          tightX = max 0 (imageX - paddingX);
          tightY = max 0 (imageY - paddingY);
          tightW = min (imageW + paddingX * 2) (imageWidth - tightX);
          tightH = min (imageH + paddingY * 2) (imageHeight - tightY);
          finalX = max 0 (min tightX (imageWidth - tightW));
          finalY = max 0 (min tightY (imageHeight - tightH))
      in \<lparr>rect_x = finalX * screenScaleX, rect_y = finalY * screenScaleY,
          rect_width = tightW * screenScaleX, rect_height = 35\<rparr>)"

text \<open>
  The function itself. Its first argument stands for
  \<^verbatim>\<open>ImageManipulator.manipulateAsync\<close> asked to resize: from the image and the
  analysis size to the processed image, or \<open>None\<close> when the call throws. The image
  argument stands for the picture behind \<^verbatim>\<open>imageUri\<close>. The \<^verbatim>\<open>catch\<close> turns a
  throw into \<^verbatim>\<open>null\<close>, here \<open>None\<close>.
\<close>

definition analyzeTextDensity ::
  "('img \<Rightarrow> real \<Rightarrow> real \<Rightarrow> 'png option) \<Rightarrow> 'img \<Rightarrow> real \<Rightarrow> real \<Rightarrow> real \<Rightarrow> real \<Rightarrow> rect option" where
  "analyzeTextDensity manipulateAsync imageUri imageWidth imageHeight screenWidth screenHeight =
     (let analysisWidth = 200;
          analysisHeight = js_round (imageHeight / imageWidth * analysisWidth)
      in case manipulateAsync imageUri analysisWidth analysisHeight of
           None \<Rightarrow> None
         | Some processed \<Rightarrow>
             Some (density_rect analysisWidth analysisHeight
                     imageWidth imageHeight screenWidth screenHeight))"

section \<open>The camera screen that analyses the photo (an earlier screens/CameraScreen)\<close>

record photo =
  uri :: string
  photo_width :: real
  photo_height :: real

text \<open>
  The camera ref: \<^verbatim>\<open>null\<close>, or a camera together with what its
  \<^verbatim>\<open>takePictureAsync\<close> gives (\<open>None\<close> when that throws).
\<close>

datatype camera_ref = NullCamera | Camera "photo option"

text \<open>
  How \<^verbatim>\<open>onCapture\<close> ends: it returns at once, it shows the alert of its
  \<^verbatim>\<open>catch\<close>, or it navigates to the preview with a photo and a crop rectangle.
\<close>

datatype capture_outcome = NoPicture | CaptureAlert | NavigatePreview photo rect

definition onCapture_analyze ::
  "(string \<Rightarrow> real \<Rightarrow> real \<Rightarrow> 'png option) \<Rightarrow> (string \<Rightarrow> string option) \<Rightarrow> bool \<Rightarrow>
   real \<Rightarrow> real \<Rightarrow> camera_ref \<Rightarrow> capture_outcome" where
  "onCapture_analyze manipulateAsync flipAsync isAndroid SCREEN_WIDTH SCREEN_HEIGHT cameraRef =
     (case cameraRef of
        NullCamera \<Rightarrow> NoPicture
      | Camera None \<Rightarrow> CaptureAlert
      | Camera (Some taken) \<Rightarrow>
          (case (if isAndroid
                 then map_option (\<lambda>flipped. taken\<lparr>uri := flipped\<rparr>) (flipAsync (uri taken))
                 else Some taken) of
             None \<Rightarrow> CaptureAlert
           | Some p \<Rightarrow>
               (case analyzeTextDensity manipulateAsync (uri p)
                       (photo_width p) (photo_height p) SCREEN_WIDTH SCREEN_HEIGHT of
                  Some textDensityResult \<Rightarrow> NavigatePreview p textDensityResult
                | None \<Rightarrow>
                    NavigatePreview p
                      (detectTextArea SCREEN_WIDTH SCREEN_HEIGHT
                         (Some \<lparr>topOffset = Some 120, bottomOffset = Some 120,
                                area_widthRatio = Some 0.85, area_heightRatio = Some 0.4,
                                verticalPosition = Some PosUpperCenter\<rparr>)))))"

section \<open>The preview screen with the crop box (screens/PreviewScreen)\<close>

text \<open>
  What the screen knows of its surroundings: the measured layout of the image
  container (both zero until it has been laid out) and the window size.
\<close>

record preview_env =
  layout_width :: real
  layout_height :: real
  window_width :: real
  window_height :: real

text \<open>
  \<^verbatim>\<open>cropAsync\<close> up to its call of the cropper: the rectangle it passes (\<open>Inr\<close>), or
  why it does not call (\<open>Inl\<close>): it returns early, or one of its two checks throws
  and its \<^verbatim>\<open>catch\<close> shows the whole photo instead.
\<close>

datatype crop_error = LayoutNotReady | InvalidCropDimensions | InvalidCropOrigin

text \<open>
  The second half of \<^verbatim>\<open>cropAsync\<close>: from the rounded photo coordinates, through
  the bounding assignments and the two checks, to the rectangle for the cropper.
\<close>

definition bound_crop :: "real \<Rightarrow> real \<Rightarrow> crop_rect \<Rightarrow> crop_error + crop_rect" where
  "bound_crop photoWidth photoHeight rounded =
     (let photoX = max 0 (originX rounded);
          photoY = max 0 (originY rounded);
          pW = max 1 (min (crop_width rounded) (photoWidth - photoX));
          pH = max 1 (min (crop_height rounded) (photoHeight - photoY));
          exceeds = photoX + pW > photoWidth \<or> photoY + pH > photoHeight;
          pW' = (if exceeds then min pW (photoWidth - photoX - 1) else pW);
          pH' = (if exceeds then min pH (photoHeight - photoY - 1) else pH)
      in if pW' \<le> 0 \<or> pH' \<le> 0 then Inl InvalidCropDimensions
         else if photoX < 0 \<or> photoY < 0 then Inl InvalidCropOrigin
         else Inr \<lparr>originX = photoX, originY = photoY,
                   crop_width = pW', crop_height = pH'\<rparr>)"

definition cropAsync_rect ::
  "preview_env \<Rightarrow> real \<Rightarrow> real \<Rightarrow> rect \<Rightarrow> crop_error + crop_rect" where
  "cropAsync_rect env photoWidth photoHeight box =
     (if layout_width env = 0 \<or> layout_height env = 0 then Inl LayoutNotReady
      else
        (let photoAspect = photoWidth / photoHeight;
             containerAspect = layout_width env / layout_height env;
             wider = photoAspect > containerAspect;
             displayedImageWidth =
               (if wider then layout_width env else layout_height env * photoAspect);
             displayedImageHeight =
               (if wider then layout_width env / photoAspect else layout_height env);
             imageOffsetX =
               (if wider then 0 else (layout_width env - displayedImageWidth) / 2);
             imageOffsetY =
               (if wider then (layout_height env - displayedImageHeight) / 2 else 0);
             scaleX = photoWidth / displayedImageWidth;
             scaleY = photoHeight / displayedImageHeight;
             adjustedX = rect_x box - imageOffsetX;
             adjustedY = rect_y box - imageOffsetY;
             rounded =
               \<lparr>originX = js_round (adjustedX * scaleX),
                originY = js_round (adjustedY * scaleY),
                crop_width = js_round (rect_width box * scaleX),
                crop_height = js_round (rect_height box * scaleY)\<rparr>
         in bound_crop photoWidth photoHeight rounded))"

text \<open>
  The properties that the cropper asks of a rectangle, for a photo of the given
  size: whole numbers, a positive size, a non-negative origin, and no part outside
  the photo.
\<close>

definition crop_ok :: "crop_rect \<Rightarrow> real \<Rightarrow> real \<Rightarrow> bool" where
  "crop_ok c photoWidth photoHeight \<longleftrightarrow>
     whole (originX c) \<and> whole (originY c) \<and> whole (crop_width c) \<and> whole (crop_height c) \<and>
     0 < crop_width c \<and> 0 < crop_height c \<and> 0 \<le> originX c \<and> 0 \<le> originY c \<and>
     originX c + crop_width c \<le> photoWidth \<and> originY c + crop_height c \<le> photoHeight"

section \<open>Rounding to a double\<close>

lemma rne_err: "\<bar>of_int (rne t) - t\<bar> \<le> 1 / 2"
  unfolding rne_def Let_def by (auto; linarith)

lemma rne_of_int: "rne (of_int n) = n"
  by (simp add: rne_def)

lemma rne_mono:
  assumes "s \<le> t"
  shows "rne s \<le> rne t"
proof (cases "s = t")
  case True
  then show ?thesis by simp
next
  case False
  with assms have lt: "s < t" by simp
  have "of_int (rne s) \<le> s + 1 / 2" using rne_err [of s] by linarith
  moreover have "t - 1 / 2 \<le> of_int (rne t)" using rne_err [of t] by linarith
  ultimately have "real_of_int (rne s) < real_of_int (rne t) + 1" using lt by linarith
  then have "rne s < rne t + 1" by linarith
  then show ?thesis by simp
qed

lemma expo_bounds:
  assumes "0 < v"
  shows "2 powi expo v \<le> v" and "v < 2 powi (expo v + 1)"
proof -
  have "2 powi expo v \<le> v \<and> v < 2 powi (expo v + 1)"
  proof (cases "1 \<le> v")
    case True
    define n where "n = \<lfloor>v\<rfloor>"
    have n: "0 < n" using True by (simp add: n_def)
    define b where "b = bitlen n"
    have b1: "1 \<le> b" using n by (simp add: b_def bitlen_alt_def)
    from bitlen_bounds [OF n] have lo: "2 ^ nat (b - 1) \<le> n" and hi: "n < 2 ^ nat b"
      by (simp_all add: b_def)
    have e: "expo v = b - 1" using True by (simp add: expo_def n_def b_def)
    have "(2::real) powi (b - 1) = 2 ^ nat (b - 1)" using b1 by (simp add: power_int_def)
    also have "\<dots> \<le> of_int n" using lo by (metis of_int_le_iff of_int_numeral of_int_power)
    also have "\<dots> \<le> v" by (simp add: n_def)
    finally have l: "2 powi (b - 1) \<le> v" .
    have "n + 1 \<le> 2 ^ nat b" using hi by simp
    then have "real_of_int (n + 1) \<le> 2 ^ nat b"
      by (metis of_int_le_iff of_int_numeral of_int_power)
    moreover have "v < real_of_int (n + 1)" unfolding n_def by linarith
    ultimately have "v < 2 ^ nat b" by linarith
    also have "\<dots> = (2::real) powi b" using b1 by (simp add: power_int_def)
    finally show ?thesis using l e by simp
  next
    case False
    then have v1: "v < 1" by simp
    define n where "n = \<lceil>1 / v\<rceil>"
    have w: "1 < 1 / v" using assms v1 by simp
    have n2: "2 \<le> n" unfolding n_def using w by linarith
    define m where "m = n - 1"
    have m: "0 < m" using n2 by (simp add: m_def)
    define b where "b = bitlen m"
    have b1: "1 \<le> b" using m by (simp add: b_def bitlen_alt_def)
    from bitlen_bounds [OF m] have lo: "2 ^ nat (b - 1) \<le> m" and hi: "m < 2 ^ nat b"
      by (simp_all add: b_def)
    have e: "expo v = - b" using False by (simp add: expo_def n_def b_def m_def)
    have "n \<le> 2 ^ nat b" using hi by (simp add: m_def)
    then have "real_of_int n \<le> 2 ^ nat b"
      by (metis of_int_le_iff of_int_numeral of_int_power)
    moreover have "1 / v \<le> real_of_int n" by (simp add: n_def)
    ultimately have "1 / v \<le> 2 ^ nat b" by linarith
    then have "1 \<le> 2 ^ nat b * v" using assms by (simp add: field_simps)
    then have l: "2 powi (- b) \<le> v"
      using b1 by (simp add: power_int_def field_simps)
    have "real_of_int m < 1 / v" unfolding m_def n_def by linarith
    moreover have "(2::real) ^ nat (b - 1) \<le> real_of_int m"
      using lo by (metis of_int_le_iff of_int_numeral of_int_power)
    ultimately have "2 ^ nat (b - 1) < 1 / v" by linarith
    then have "2 ^ nat (b - 1) * v < 1" using assms by (simp add: field_simps)
    then have h: "v < 2 powi (- b + 1)"
    proof (cases "b = 1")
      case True
      then show ?thesis using v1 by simp
    next
      case False
      then have "- b + 1 < 0" using b1 by simp
      define P :: real where "P = 2 ^ nat (b - 1)"
      have P: "0 < P" by (simp add: P_def)
      have "nat (- (- b + 1)) = nat (b - 1)" by simp
      then have eq: "(2::real) powi (- b + 1) = 1 / P"
        using \<open>- b + 1 < 0\<close> unfolding power_int_def P_def
        by (simp add: power_one_over [symmetric] inverse_eq_divide)
      have "P * v < 1" using \<open>2 ^ nat (b - 1) * v < 1\<close> by (simp add: P_def)
      then have "v < 1 / P" using P by (simp add: field_simps)
      then show ?thesis unfolding eq .
    qed
    show ?thesis using l h e by simp
  qed
  then show "2 powi expo v \<le> v" and "v < 2 powi (expo v + 1)" by simp_all
qed

lemma expo_unique:
  assumes "0 < v" "2 powi k \<le> v" "v < 2 powi (k + 1)"
  shows "expo v = k"
proof (rule antisym)
  show "expo v \<le> k"
  proof (rule ccontr)
    assume "\<not> expo v \<le> k"
    then have "k + 1 \<le> expo v" by simp
    then have "(2::real) powi (k + 1) \<le> 2 powi expo v"
      by (intro power_int_increasing) simp_all
    with expo_bounds(1) [OF assms(1)] assms(3) show False by linarith
  qed
  show "k \<le> expo v"
  proof (rule ccontr)
    assume "\<not> k \<le> expo v"
    then have "expo v + 1 \<le> k" by simp
    then have "(2::real) powi (expo v + 1) \<le> 2 powi k"
      by (intro power_int_increasing) simp_all
    with expo_bounds(2) [OF assms(1)] assms(2) show False by linarith
  qed
qed

lemma expo_mono:
  assumes "0 < v" "v \<le> w"
  shows "expo v \<le> expo w"
proof (rule ccontr)
  assume "\<not> expo v \<le> expo w"
  then have "expo w + 1 \<le> expo v" by simp
  then have "(2::real) powi (expo w + 1) \<le> 2 powi expo v"
    by (intro power_int_increasing) simp_all
  moreover have "0 < w" using assms by linarith
  ultimately show False
    using expo_bounds(1) [OF assms(1)] expo_bounds(2) [of w] assms(2) by linarith
qed

lemma fl_zero: "fl 0 = 0"
  by (simp add: fl_def)

lemma fl_scaled:
  assumes "v \<noteq> 0"
  shows "fl v = of_int (rne (v / 2 powi (expo \<bar>v\<bar> - 52))) * 2 powi (expo \<bar>v\<bar> - 52)"
  using assms by (simp add: fl_def Let_def)

lemma scaled_range:
  assumes "v \<noteq> 0"
  shows "2 ^ 52 \<le> \<bar>v\<bar> / 2 powi (expo \<bar>v\<bar> - 52)"
    and "\<bar>v\<bar> / 2 powi (expo \<bar>v\<bar> - 52) < 2 ^ 53"
proof -
  define e where "e = expo \<bar>v\<bar>"
  have pos: "0 < \<bar>v\<bar>" using assms by simp
  have q: "(0::real) < 2 powi (e - 52)" by simp
  have lo: "2 powi e \<le> \<bar>v\<bar>" and hi: "\<bar>v\<bar> < 2 powi (e + 1)"
    using expo_bounds [OF pos] by (simp_all add: e_def)
  have a: "(2::real) powi e = 2 ^ 52 * 2 powi (e - 52)"
    by (simp add: power_int_diff)
  have b: "(2::real) powi (e + 1) = 2 ^ 53 * 2 powi (e - 52)"
    by (simp add: power_int_diff power_int_add)
  show "2 ^ 52 \<le> \<bar>v\<bar> / 2 powi (expo \<bar>v\<bar> - 52)"
    unfolding e_def [symmetric] using lo q unfolding a by (simp add: field_simps)
  show "\<bar>v\<bar> / 2 powi (expo \<bar>v\<bar> - 52) < 2 ^ 53"
    unfolding e_def [symmetric] using hi q unfolding b by (simp add: field_simps)
qed

lemma fl_err:
  "\<bar>fl v - v\<bar> \<le> \<bar>v\<bar> / 2 ^ 53"
proof (cases "v = 0")
  case True
  then show ?thesis by (simp add: fl_zero)
next
  case False
  define q :: real where "q = 2 powi (expo \<bar>v\<bar> - 52)"
  have q: "0 < q" by (simp add: q_def)
  define t where "t = v / q"
  have v: "v = t * q" using q by (simp add: t_def)
  have "fl v - v = (of_int (rne t) - t) * q"
    using fl_scaled [OF False] q by (simp add: q_def [symmetric] t_def algebra_simps)
  then have "\<bar>fl v - v\<bar> = \<bar>of_int (rne t) - t\<bar> * q"
    using q by (simp add: abs_mult)
  also have "\<dots> \<le> (1 / 2) * q"
    using rne_err [of t] q by (intro mult_right_mono) simp_all
  finally have e1: "\<bar>fl v - v\<bar> \<le> q / 2" by simp
  have "2 ^ 52 \<le> \<bar>v\<bar> / q" using scaled_range(1) [OF False] by (simp add: q_def)
  then have "q * 2 ^ 52 \<le> \<bar>v\<bar>" using q by (simp add: field_simps)
  then have "q / 2 \<le> \<bar>v\<bar> / 2 ^ 53" by simp
  with e1 show ?thesis by linarith
qed

lemma power_int_less_exp:
  assumes "(2::real) powi a < 2 powi b"
  shows "a < b"
proof (rule ccontr)
  assume "\<not> a < b"
  then have "b \<le> a" by simp
  then have "(2::real) powi b \<le> 2 powi a" by (intro power_int_increasing) simp_all
  with assms show False by linarith
qed

lemma fl_exact:
  assumes "\<bar>m\<bar> < 2 ^ 53"
  shows "fl (of_int m * 2 powi k) = of_int m * 2 powi k"
proof (cases "m = 0")
  case True
  then show ?thesis by (simp add: fl_zero)
next
  case False
  define v :: real where "v = of_int m * 2 powi k"
  have v0: "v \<noteq> 0" using False by (simp add: v_def)
  define e where "e = expo \<bar>v\<bar>"
  have pos: "0 < \<bar>v\<bar>" using v0 by simp
  have "\<bar>v\<bar> = of_int \<bar>m\<bar> * 2 powi k" by (simp add: v_def abs_mult)
  moreover have "real_of_int \<bar>m\<bar> < 2 ^ 53"
    using assms by (metis of_int_less_iff of_int_numeral of_int_power)
  ultimately have "\<bar>v\<bar> < 2 ^ 53 * 2 powi k"
    by (simp add: mult_strict_right_mono)
  also have "\<dots> = 2 powi (53 + k)" by (simp add: power_int_add)
  finally have "2 powi e < (2::real) powi (53 + k)"
    using expo_bounds(1) [OF pos] unfolding e_def by linarith
  then have "e < 53 + k" by (rule power_int_less_exp)
  then have j: "0 \<le> k - (e - 52)" by simp
  define j where "j = nat (k - (e - 52))"
  have "(2::real) powi k = 2 powi (int j) * 2 powi (e - 52)"
    using j by (simp add: j_def power_int_add [symmetric])
  then have kj: "(2::real) powi k = 2 ^ j * 2 powi (e - 52)" by simp
  have "v / 2 powi (e - 52) = of_int (m * 2 ^ j)"
    unfolding v_def kj by simp
  then have "rne (v / 2 powi (e - 52)) = m * 2 ^ j"
    by (simp only: rne_of_int)
  then have "fl v = of_int (m * 2 ^ j) * 2 powi (e - 52)"
    using fl_scaled [OF v0] by (simp add: e_def)
  also have "\<dots> = v" unfolding v_def kj by simp
  finally show ?thesis by (simp add: v_def)
qed

lemma fl_pow2: "fl (2 powi k) = 2 powi k"
  using fl_exact [of 1 k] by simp

lemma fl_of_int:
  assumes "\<bar>n\<bar> \<le> 2 ^ 53"
  shows "fl (of_int n) = of_int n"
proof (cases "\<bar>n\<bar> = 2 ^ 53")
  case True
  then have "n = 2 ^ 53 \<or> n = - (2 ^ 53)" by linarith
  then show ?thesis
    using fl_exact [of 1 53] fl_exact [of "- 1" 53] by auto
next
  case False
  with assms have "\<bar>n\<bar> < 2 ^ 53" by simp
  from fl_exact [OF this, of 0] show ?thesis by simp
qed

lemma fl_pos_bounds:
  assumes "0 < v"
  shows "2 powi expo v \<le> fl v" and "fl v \<le> 2 powi (expo v + 1)"
proof -
  define e where "e = expo v"
  define q :: real where "q = 2 powi (e - 52)"
  have q: "0 < q" by (simp add: q_def)
  have v0: "v \<noteq> 0" and av: "\<bar>v\<bar> = v" using assms by simp_all
  have r: "2 ^ 52 \<le> v / q" "v / q < 2 ^ 53"
    using scaled_range [OF v0] unfolding av by (simp_all add: q_def e_def)
  have "rne (of_int (2 ^ 52)) \<le> rne (v / q)" using r(1) by (intro rne_mono) simp
  then have lo: "2 ^ 52 \<le> rne (v / q)" by (simp only: rne_of_int)
  have "rne (v / q) \<le> rne (of_int (2 ^ 53))" using r(2) by (intro rne_mono) simp
  then have hi: "rne (v / q) \<le> 2 ^ 53" by (simp only: rne_of_int)
  have f: "fl v = of_int (rne (v / q)) * q"
    using fl_scaled [OF v0] unfolding av by (simp add: q_def e_def)
  have "(2::real) ^ 52 \<le> of_int (rne (v / q))"
    using lo by (metis of_int_le_iff of_int_numeral of_int_power)
  then have "2 ^ 52 * q \<le> fl v" unfolding f using q by (intro mult_right_mono) simp_all
  moreover have "2 ^ 52 * q = 2 powi e" by (simp add: q_def power_int_diff)
  ultimately show "2 powi expo v \<le> fl v" by (simp add: e_def)
  have "of_int (rne (v / q)) \<le> (2::real) ^ 53"
    using hi by (metis of_int_le_iff of_int_numeral of_int_power)
  then have "fl v \<le> 2 ^ 53 * q" unfolding f using q by (intro mult_right_mono) simp_all
  moreover have "2 ^ 53 * q = 2 powi (e + 1)" by (simp add: q_def power_int_diff power_int_add)
  ultimately show "fl v \<le> 2 powi (expo v + 1)" by (simp add: e_def)
qed

lemma fl_pos:
  assumes "0 < v"
  shows "0 < fl v"
proof -
  have "(0::real) < 2 powi expo v" by simp
  with fl_pos_bounds(1) [OF assms] show ?thesis by linarith
qed

lemma fl_nonneg:
  assumes "0 \<le> v"
  shows "0 \<le> fl v"
  using assms fl_pos [of v] by (cases "v = 0") (simp_all add: fl_zero)

lemma fl_mono_nonneg:
  assumes "0 \<le> v" "v \<le> w"
  shows "fl v \<le> fl w"
proof (cases "v = 0")
  case True
  then show ?thesis using assms fl_nonneg [of w] by (simp add: fl_zero)
next
  case False
  then have v: "0 < v" and w: "0 < w" using assms by simp_all
  have le: "expo v \<le> expo w" using v assms(2) by (rule expo_mono)
  show ?thesis
  proof (cases "expo v = expo w")
    case True
    define q :: real where "q = 2 powi (expo v - 52)"
    have q: "0 < q" by (simp add: q_def)
    have fv: "fl v = of_int (rne (v / q)) * q"
      using fl_scaled [of v] v by (simp add: q_def)
    have fw: "fl w = of_int (rne (w / q)) * q"
      using fl_scaled [of w] w True by (simp add: q_def)
    have "v / q \<le> w / q" using assms(2) q by (simp add: divide_right_mono)
    then have "rne (v / q) \<le> rne (w / q)" by (rule rne_mono)
    then show ?thesis unfolding fv fw using q by (simp add: mult_right_mono)
  next
    case False
    with le have "expo v + 1 \<le> expo w" by simp
    then have "(2::real) powi (expo v + 1) \<le> 2 powi expo w"
      by (intro power_int_increasing) simp_all
    with fl_pos_bounds(2) [OF v] fl_pos_bounds(1) [OF w] show ?thesis by linarith
  qed
qed

lemma fl_half: "fl (v / 2) = fl v / 2"
proof (cases "v = 0")
  case True
  then show ?thesis by (simp add: fl_zero)
next
  case False
  have pos: "0 < \<bar>v\<bar>" using False by simp
  define e where "e = expo \<bar>v\<bar>"
  have "expo (\<bar>v\<bar> / 2) = e - 1"
  proof (rule expo_unique)
    show "0 < \<bar>v\<bar> / 2" using pos by simp
    have "2 powi (e - 1) = (2::real) powi e / 2" by (simp add: power_int_diff)
    then show "2 powi (e - 1) \<le> \<bar>v\<bar> / 2"
      using expo_bounds(1) [OF pos] by (simp add: e_def)
    have "(2::real) powi (e - 1 + 1) = 2 powi (e + 1) / 2" by (simp add: power_int_add)
    then show "\<bar>v\<bar> / 2 < 2 powi (e - 1 + 1)"
      using expo_bounds(2) [OF pos] by (simp add: e_def)
  qed
  then have e2: "expo \<bar>v / 2\<bar> = e - 1" by simp
  have q2: "(2::real) powi (e - 1 - 52) = 2 powi (e - 52) / 2"
    by (simp add: power_int_diff)
  have "fl (v / 2) = of_int (rne (v / 2 / (2 powi (e - 52) / 2))) * (2 powi (e - 52) / 2)"
    using fl_scaled [of "v / 2"] False unfolding e2 q2 by simp
  also have "\<dots> = of_int (rne (v / 2 powi (e - 52))) * 2 powi (e - 52) / 2" by simp
  also have "\<dots> = fl v / 2" using fl_scaled [OF False] by (simp add: e_def)
  finally show ?thesis .
qed

lemma fl_idem: "fl (fl v) = fl v"
proof (cases "v = 0")
  case True
  then show ?thesis by (simp add: fl_zero)
next
  case False
  define e where "e = expo \<bar>v\<bar>"
  define q :: real where "q = 2 powi (e - 52)"
  define M where "M = rne (v / q)"
  have f: "fl v = of_int M * 2 powi (e - 52)"
    using fl_scaled [OF False] by (simp add: M_def q_def e_def)
  have q: "0 < q" by (simp add: q_def)
  have "\<bar>v / q\<bar> < 2 ^ 53" using scaled_range(2) [OF False] q by (simp add: q_def e_def)
  then have "- (2 ^ 53) \<le> v / q" "v / q \<le> 2 ^ 53" by linarith+
  then have "rne (of_int (- (2 ^ 53))) \<le> M" "M \<le> rne (of_int (2 ^ 53))"
    unfolding M_def by (intro rne_mono; simp)+
  then have M: "- (2 ^ 53) \<le> M" "M \<le> 2 ^ 53" by (simp_all only: rne_of_int)
  show ?thesis
  proof (cases "\<bar>M\<bar> = 2 ^ 53")
    case True
    then have "M = 2 ^ 53 \<or> M = - (2 ^ 53)" by linarith
    then have "fl v = 2 powi (e + 1) \<or> fl v = - 1 * 2 powi (e + 1)"
      unfolding f by (auto simp: power_int_diff power_int_add)
    then show ?thesis using fl_exact [of 1 "e + 1"] fl_exact [of "- 1" "e + 1"] by auto
  next
    case False
    with M have "\<bar>M\<bar> < 2 ^ 53" by linarith
    from fl_exact [OF this, of "e - 52"] show ?thesis unfolding f .
  qed
qed

lemma fl_upper: "fl v \<le> v + \<bar>v\<bar> / 2 ^ 53"
  using fl_err [of v] by linarith

lemma fl_lower: "v - \<bar>v\<bar> / 2 ^ 53 \<le> fl v"
  using fl_err [of v] by linarith

lemma fl_nonpos:
  assumes "v \<le> 0"
  shows "fl v \<le> 0"
proof -
  have "fl v \<le> v + \<bar>v\<bar> / 2 ^ 53" by (rule fl_upper)
  also have "\<dots> = v * (1 - 1 / 2 ^ 53)" using assms by (simp add: algebra_simps)
  also have "\<dots> \<le> 0" using assms by (simp add: mult_le_0_iff)
  finally show ?thesis .
qed

lemma fl_le_double:
  assumes "v \<le> w" "0 \<le> w" "fl w = w"
  shows "fl v \<le> w"
proof (cases "0 \<le> v")
  case True
  from fl_mono_nonneg [OF True assms(1)] assms(3) show ?thesis by simp
next
  case False
  then have "fl v \<le> 0" by (intro fl_nonpos) simp
  with assms(2) show ?thesis by linarith
qed

lemma fl_one: "fl 1 = 1"
  using fl_of_int [of 1] by simp

section \<open>Rounding to an integer\<close>

lemma js_round_upper: "js_round v \<le> v + 1 / 2"
  unfolding js_round_def by linarith

lemma js_round_lower: "v - 1 / 2 < js_round v"
  unfolding js_round_def by linarith

lemma js_round_err: "\<bar>js_round v - v\<bar> \<le> 1 / 2"
  using js_round_upper [of v] js_round_lower [of v] by linarith

lemma whole_js_round: "whole (js_round v)"
  by (simp add: whole_def js_round_def)


lemma js_round_of_int: "js_round (of_int n) = of_int n"
  unfolding js_round_def by simp

lemma js_round_mono: "v \<le> w \<Longrightarrow> js_round v \<le> js_round w"
  unfolding js_round_def by (simp add: floor_mono)

lemma js_round_ge_int:
  assumes "of_int n - 1 / 2 \<le> v"
  shows "of_int n \<le> js_round v"
proof -
  have "n \<le> \<lfloor>v + 1 / 2\<rfloor>" using assms by (simp add: le_floor_iff)
  then show ?thesis unfolding js_round_def by simp
qed

section \<open>The coordinate mapper: there and back\<close>

lemma scaled_err:
  assumes "0 < \<sigma>"
  shows "\<bar>js_mul x (fl \<sigma>) - x * \<sigma>\<bar> \<le> 3 * (\<bar>x\<bar> * \<sigma>) / 2 ^ 53"
proof -
  define u :: real where "u = 1 / 2 ^ 53"
  have u: "0 < u" "u \<le> 1" by (simp_all add: u_def)
  define m where "m = \<bar>x\<bar> * \<sigma>"
  have m: "0 \<le> m" using assms by (simp add: m_def)
  have "\<bar>fl \<sigma> - \<sigma>\<bar> \<le> \<sigma> * u" using fl_err [of \<sigma>] assms by (simp add: u_def)
  then have "\<bar>x\<bar> * \<bar>fl \<sigma> - \<sigma>\<bar> \<le> \<bar>x\<bar> * (\<sigma> * u)"
    by (intro mult_left_mono) simp_all
  then have a: "\<bar>x * fl \<sigma> - x * \<sigma>\<bar> \<le> m * u"
    by (simp add: m_def abs_mult [symmetric] algebra_simps)
  then have "\<bar>x * fl \<sigma>\<bar> \<le> \<bar>x * \<sigma>\<bar> + m * u" by linarith
  also have "\<bar>x * \<sigma>\<bar> = m" using assms by (simp add: m_def abs_mult)
  finally have "\<bar>x * fl \<sigma>\<bar> \<le> m + m * u" .
  then have "\<bar>x * fl \<sigma>\<bar> * u \<le> (m + m * u) * u"
    using u by (intro mult_right_mono) simp_all
  also have "\<dots> = m * u + (m * u) * u" by (simp add: algebra_simps)
  also have "\<dots> \<le> m * u + m * u" using u m by (simp add: mult_left_le)
  finally have b: "\<bar>x * fl \<sigma>\<bar> * u \<le> 2 * (m * u)" by simp
  have "\<bar>fl (x * fl \<sigma>) - x * fl \<sigma>\<bar> \<le> \<bar>x * fl \<sigma>\<bar> * u"
    using fl_err [of "x * fl \<sigma>"] by (simp add: u_def)
  with a b have "\<bar>fl (x * fl \<sigma>) - x * \<sigma>\<bar> \<le> 3 * (m * u)" by linarith
  then show ?thesis by (simp add: js_mul_def m_def u_def)
qed

lemma there_and_back_bound:
  assumes "0 < a" "0 < b"
  shows "\<bar>there_and_back v a b - v\<bar> \<le> 1 / 2 + a / b / 2 + (\<bar>v\<bar> + a / b) / 2 ^ 50"
proof -
  define u :: real where "u = 1 / 2 ^ 53"
  have u: "0 < u" "u \<le> 1 / 8" by (simp_all add: u_def)
  define \<rho> where "\<rho> = a / b"
  have \<rho>: "0 < \<rho>" using assms by (simp add: \<rho>_def)
  have inv: "b / a = 1 / \<rho>" using assms by (simp add: \<rho>_def)
  define A where "A = js_mul v (js_div b a)"
  define X where "X = js_round A"
  define B where "B = js_mul X (js_div a b)"
  define Y where "Y = js_round B"
  define V where "V = \<bar>v\<bar> * u"
  define R where "R = \<rho> * u"
  have VR: "0 \<le> V" "0 < R" using u \<rho> by (simp_all add: V_def R_def)
  have "\<bar>A - v * (b / a)\<bar> \<le> 3 * (\<bar>v\<bar> * (b / a)) / 2 ^ 53"
    unfolding A_def js_div_def using assms by (intro scaled_err) simp
  then have e1: "\<bar>A - v / \<rho>\<bar> \<le> 3 * (\<bar>v\<bar> / \<rho>) * u"
    unfolding inv by (simp add: u_def)
  have "A * \<rho> - v = (A - v / \<rho>) * \<rho>"
    using \<rho> by (simp add: algebra_simps)
  then have "\<bar>A * \<rho> - v\<bar> = \<bar>A - v / \<rho>\<bar> * \<rho>"
    using \<rho> by (simp add: abs_mult)
  also have "\<dots> \<le> 3 * (\<bar>v\<bar> / \<rho>) * u * \<rho>"
    using e1 \<rho> by (intro mult_right_mono) simp_all
  also have "\<dots> = 3 * V" using \<rho> by (simp add: V_def)
  finally have e1': "\<bar>A * \<rho> - v\<bar> \<le> 3 * V" .
  have "\<bar>X - A\<bar> \<le> 1 / 2" unfolding X_def by (rule js_round_err)
  then have "\<bar>X - A\<bar> * \<rho> \<le> 1 / 2 * \<rho>" using \<rho> by (intro mult_right_mono) simp_all
  moreover have "X * \<rho> - A * \<rho> = (X - A) * \<rho>" by (simp add: algebra_simps)
  ultimately have x1: "\<bar>X * \<rho> - A * \<rho>\<bar> \<le> \<rho> / 2"
    using \<rho> by (simp add: abs_mult)
  from x1 e1' have xv: "\<bar>X * \<rho> - v\<bar> \<le> \<rho> / 2 + 3 * V" by linarith
  then have "\<bar>X * \<rho>\<bar> \<le> \<bar>v\<bar> + \<rho> / 2 + 3 * V" by linarith
  then have "\<bar>X * \<rho>\<bar> * u \<le> (\<bar>v\<bar> + \<rho> / 2 + 3 * V) * u"
    using u by (intro mult_right_mono) simp_all
  also have "\<dots> = V + R / 2 + 3 * (V * u)" by (simp add: V_def R_def algebra_simps)
  finally have xu: "\<bar>X * \<rho>\<bar> * u \<le> V + R / 2 + 3 * (V * u)" .
  have "V * u \<le> V * (1 / 8)" using u VR by (intro mult_left_mono) simp_all
  then have vu: "8 * (V * u) \<le> V" by simp
  have "\<bar>B - X * (a / b)\<bar> \<le> 3 * (\<bar>X\<bar> * (a / b)) / 2 ^ 53"
    unfolding B_def js_div_def using assms by (intro scaled_err) simp
  then have e2: "\<bar>B - X * \<rho>\<bar> \<le> 3 * (\<bar>X * \<rho>\<bar> * u)"
    using \<rho> by (simp add: \<rho>_def [symmetric] u_def abs_mult)
  define T where "T = \<bar>X * \<rho>\<bar> * u"
  define W where "W = V * u"
  have yb: "\<bar>Y - B\<bar> \<le> 1 / 2" unfolding Y_def by (rule js_round_err)
  define P where "P = X * \<rho>"
  note xu = xu [folded T_def W_def] and vu = vu [folded W_def]
    and e2 = e2 [folded T_def, folded P_def] and xv = xv [folded P_def]
  have "\<bar>Y - v\<bar> \<le> \<bar>Y - B\<bar> + \<bar>B - P\<bar> + \<bar>P - v\<bar>" by linarith
  with e2 yb xv have "\<bar>Y - v\<bar> \<le> 1 / 2 + 3 * T + (\<rho> / 2 + 3 * V)" by linarith
  moreover have "8 * T \<le> 11 * V + 4 * R" using xu vu by linarith
  moreover have "0 \<le> R" using VR by simp
  ultimately have "\<bar>Y - v\<bar> \<le> 1 / 2 + \<rho> / 2 + (8 * V + 8 * R)" using VR(1) by linarith
  also have "8 * V + 8 * R = (\<bar>v\<bar> + \<rho>) / 2 ^ 50" by (simp add: V_def R_def u_def algebra_simps)
  finally show ?thesis
    by (simp add: there_and_back_def Y_def B_def X_def A_def \<rho>_def)
qed

text \<open>Axes of nearly the same length: both roundings to an integer agree.\<close>

lemma there_and_back_near:
  assumes "0 < a" "a \<le> b" "b \<le> 2 ^ 20" "b - a \<le> b / 2 ^ 28" "fl v = v" "0 \<le> v" "v \<le> a"
  shows "\<bar>there_and_back v a b - v\<bar> \<le> 1"
proof -
  have b: "0 < b" using assms(1,2) by linarith
  define s where "s = js_div b a"
  define t where "t = js_div a b"
  define A where "A = js_mul v s"
  define n where "n = \<lfloor>A + 1 / 2\<rfloor>"
  define X where "X = js_round A"
  define B where "B = js_mul X t"
  have X: "X = of_int n" by (simp add: X_def js_round_def n_def)
  \<comment> \<open>the two scales\<close>
  have "1 \<le> b / a" using assms(1,2) by simp
  then have "fl 1 \<le> fl (b / a)" by (intro fl_mono_nonneg) simp_all
  then have s1: "1 \<le> s" by (simp add: s_def js_div_def fl_one)
  have "a / b \<le> 1" using assms(2) b by simp
  then have "fl (a / b) \<le> 1" using fl_one by (intro fl_le_double) simp_all
  then have t1: "t \<le> 1" by (simp add: t_def js_div_def)
  have "b * (1 - 1 / 2 ^ 28) \<le> a" using assms(4) by (simp add: algebra_simps)
  then have r: "1 - 1 / 2 ^ 28 \<le> a / b" using b by (simp add: field_simps)
  have "b \<le> a * (1 + 1 / 2 ^ 27)"
  proof -
    have "b * (1 - 1 / 2 ^ 28) * (1 + 1 / 2 ^ 27) \<le> a * (1 + 1 / 2 ^ 27)"
      using \<open>b * (1 - 1 / 2 ^ 28) \<le> a\<close> by (intro mult_right_mono) simp_all
    moreover have "(1::real) \<le> (1 - 1 / 2 ^ 28) * (1 + 1 / 2 ^ 27)" by simp
    then have "b * 1 \<le> b * ((1 - 1 / 2 ^ 28) * (1 + 1 / 2 ^ 27))"
      using b by (intro mult_left_mono) simp_all
    ultimately show ?thesis by (simp add: mult.assoc)
  qed
  then have q: "b / a \<le> 1 + 1 / 2 ^ 27" using assms(1) by (simp add: field_simps)
  have "s \<le> b / a + \<bar>b / a\<bar> / 2 ^ 53" unfolding s_def js_div_def by (rule fl_upper)
  also have "\<dots> = b / a * (1 + 1 / 2 ^ 53)" using assms(1) b by (simp add: algebra_simps)
  also have "\<dots> \<le> (1 + 1 / 2 ^ 27) * (1 + 1 / 2 ^ 53)"
    using q by (intro mult_right_mono) simp_all
  also have "\<dots> \<le> 1 + 1 / 2 ^ 26" by simp
  finally have s2: "s \<le> 1 + 1 / 2 ^ 26" .
  have "a / b - \<bar>a / b\<bar> / 2 ^ 53 \<le> t" unfolding t_def js_div_def by (rule fl_lower)
  moreover have "a / b - \<bar>a / b\<bar> / 2 ^ 53 = a / b * (1 - 1 / 2 ^ 53)"
    using assms(1) b by (simp add: algebra_simps)
  moreover have "(1 - 1 / 2 ^ 28) * (1 - 1 / 2 ^ 53) \<le> a / b * (1 - 1 / 2 ^ 53)"
    using r by (intro mult_right_mono) simp_all
  moreover have "(1::real) - 1 / 2 ^ 27 \<le> (1 - 1 / 2 ^ 28) * (1 - 1 / 2 ^ 53)" by simp
  ultimately have t2: "1 - 1 / 2 ^ 27 \<le> t" by linarith
  \<comment> \<open>there\<close>
  have v20: "v \<le> 2 ^ 20" using assms(2,3,7) by linarith
  have "v * 1 \<le> v * s" using assms(6) s1 by (intro mult_left_mono) simp_all
  then have "v \<le> v * s" by simp
  then have "fl v \<le> fl (v * s)" using assms(6) by (intro fl_mono_nonneg)
  then have A1: "v \<le> A" using assms(5) by (simp add: A_def js_mul_def)
  have "A \<le> v * s + \<bar>v * s\<bar> / 2 ^ 53" unfolding A_def js_mul_def by (rule fl_upper)
  also have "\<dots> = v * (s * (1 + 1 / 2 ^ 53))"
    using assms(6) s1 by (simp add: algebra_simps abs_mult)
  also have "\<dots> \<le> v * ((1 + 1 / 2 ^ 26) * (1 + 1 / 2 ^ 53))"
    using s2 assms(6) by (intro mult_left_mono mult_right_mono) simp_all
  also have "\<dots> \<le> v * (1 + 1 / 2 ^ 25)"
    using assms(6) by (intro mult_left_mono) simp_all
  also have "\<dots> = v + v / 2 ^ 25" by (simp add: algebra_simps)
  also have "\<dots> \<le> v + 2 ^ 20 / 2 ^ 25" using v20 by (intro add_left_mono divide_right_mono) simp_all
  finally have A2: "A \<le> v + 1 / 32" by simp
  have X1: "v - 1 / 2 \<le> X" using js_round_lower [of A] A1 unfolding X_def by linarith
  have X2: "X \<le> v + 1 / 2 + 1 / 32" using js_round_upper [of A] A2 unfolding X_def by linarith
  have "0 \<le> A" using A1 assms(6) by linarith
  then have "0 \<le> n" unfolding n_def by simp
  then have X0: "0 \<le> X" by (simp add: X)
  have "X \<le> 2 ^ 20 + 1" using X2 v20 by linarith
  then have "real_of_int n \<le> real_of_int (2 ^ 20 + 1)" by (simp add: X)
  then have "n \<le> 2 ^ 20 + 1" by (simp only: of_int_le_iff)
  then have "\<bar>n\<bar> \<le> 2 ^ 53" using \<open>0 \<le> n\<close> by simp
  then have fX: "fl X = X" unfolding X by (rule fl_of_int)
  \<comment> \<open>and back\<close>
  have "X * t \<le> X * 1" using X0 t1 by (intro mult_left_mono) simp_all
  then have "X * t \<le> X" by simp
  then have "fl (X * t) \<le> X" using X0 fX by (intro fl_le_double)
  then have B1: "B \<le> X" by (simp add: B_def js_mul_def)
  have t0: "0 \<le> t" using t2 by simp
  have "X * t - \<bar>X * t\<bar> / 2 ^ 53 \<le> B" unfolding B_def js_mul_def by (rule fl_lower)
  moreover have "X * t - \<bar>X * t\<bar> / 2 ^ 53 = X * (t * (1 - 1 / 2 ^ 53))"
    using X0 t0 by (simp add: algebra_simps abs_mult)
  moreover have "X * ((1 - 1 / 2 ^ 27) * (1 - 1 / 2 ^ 53)) \<le> X * (t * (1 - 1 / 2 ^ 53))"
    using t2 X0 by (intro mult_left_mono mult_right_mono) simp_all
  moreover have "X * (1 - 1 / 2 ^ 26) \<le> X * ((1 - 1 / 2 ^ 27) * (1 - 1 / 2 ^ 53))"
    using X0 by (intro mult_left_mono) simp_all
  moreover have "X * (1 - 1 / 2 ^ 26) = X - X / 2 ^ 26" by (simp add: algebra_simps)
  moreover have "X / 2 ^ 26 \<le> (2 ^ 20 + 1) / 2 ^ 26"
    using \<open>X \<le> 2 ^ 20 + 1\<close> by (intro divide_right_mono) simp_all
  ultimately have "X - (2 ^ 20 + 1) / 2 ^ 26 \<le> B" by linarith
  then have B2: "X - 1 / 2 \<le> B" by simp
  have "js_round B \<le> js_round X" using B1 by (rule js_round_mono)
  then have Y1: "js_round B \<le> X" by (simp add: X js_round_of_int)
  have Y2: "X \<le> js_round B" using B2 unfolding X by (rule js_round_ge_int)
  have "there_and_back v a b = js_round B"
    by (simp add: there_and_back_def B_def X_def A_def s_def t_def)
  with Y1 Y2 have "there_and_back v a b = X" by simp
  with X1 X2 show ?thesis by simp
qed

lemma there_and_back_unit:
  assumes "0 < a" "a \<le> b" "b \<le> 2 ^ 20" "fl v = v" "0 \<le> v" "v \<le> a"
  shows "\<bar>there_and_back v a b - v\<bar> \<le> 1"
proof (cases "b - a \<le> b / 2 ^ 28")
  case True
  with assms show ?thesis by (intro there_and_back_near)
next
  case False
  have b: "0 < b" using assms(1,2) by linarith
  define \<rho> where "\<rho> = a / b"
  define e where "e = (\<bar>v\<bar> + \<rho>) / 2 ^ 50"
  have r1: "\<rho> \<le> 1" unfolding \<rho>_def using assms(2) b by simp
  have "b / 2 ^ 28 < b - a" using False by simp
  then have "1 / 2 ^ 28 < (b - a) / b" using b by (simp add: field_simps)
  also have "(b - a) / b = 1 - \<rho>" using b by (simp add: \<rho>_def diff_divide_distrib)
  finally have r: "\<rho> < 1 - 1 / 2 ^ 28" by simp
  have "\<bar>v\<bar> + \<rho> \<le> 2 ^ 20 + 1" using assms(2,3,5,6) r1 by linarith
  then have "e \<le> (2 ^ 20 + 1) / 2 ^ 50" unfolding e_def by (intro divide_right_mono) simp_all
  then have s: "e \<le> 1 / 2 ^ 29" by simp
  have "\<bar>there_and_back v a b - v\<bar> \<le> 1 / 2 + \<rho> / 2 + e"
    unfolding \<rho>_def e_def using assms(1) b by (rule there_and_back_bound)
  with r s show ?thesis by simp
qed

lemma round_trip_fields:
  "rect_x (round_trip r fromW fromH toW toH) = there_and_back (rect_x r) fromW toW"
  "rect_y (round_trip r fromW fromH toW toH) = there_and_back (rect_y r) fromH toH"
  "rect_width (round_trip r fromW fromH toW toH) = there_and_back (rect_width r) fromW toW"
  "rect_height (round_trip r fromW fromH toW toH) = there_and_back (rect_height r) fromH toH"
  by (simp_all add: round_trip_def mapScreenRectToImage_def as_rect_def Let_def
      there_and_back_def)

lemma mappers_agree:
  "mapPreviewBoxToImageCoords r w h iw ih = mapScreenRectToImage r w h iw ih"
  by (simp add: mapPreviewBoxToImageCoords_def mapScreenRectToImage_def)

text \<open>
  Claim C1 says that mapping a rectangle inside A to B and back changes each field by
  at most 1 unit, for all positive dimensions. Against that, from a photo of 4000 by
  3000 to a screen of 400 by 300 and back: the x coordinate 1234 goes to 123 and comes
  back as 1230, four units off.
\<close>

theorem round_trip_counterexample:
  "round_trip \<lparr>rect_x = 1234, rect_y = 0, rect_width = 100, rect_height = 100\<rparr>
     4000 3000 400 300 =
   \<lparr>rect_x = 1230, rect_y = 0, rect_width = 100, rect_height = 100\<rparr>"
  by code_simp

text \<open>
  Claim C1, amended. For positive dimensions and a rectangle inside A with a width
  and a height of at least 0 (all of them numbers of the detection path) the round
  trip changes x and width by at most 1/2 + fromW / (2 toW), and y and height by at
  most 1/2 + fromH / (2 toH), up to the rounding of the two multiplications and
  divisions, which adds at most (\<bar>v\<bar> + fromW / toW) / 2 ^ 50 to the change of a
  field v (fromH / toH for y and height). On an axis where B is at least as long as
  A, and not longer than 2 ^ 20, the change is at most 1 unit. Both mappers of the
  sources compute the same function.
\<close>

theorem round_trip_stability:
  assumes "js_number fromW" "0 < fromW" "js_number fromH" "0 < fromH"
    and "js_number toW" "0 < toW" "js_number toH" "0 < toH"
    and "js_rect r" "inside r fromW fromH" "0 \<le> rect_width r" "0 \<le> rect_height r"
  shows "\<bar>rect_x (round_trip r fromW fromH toW toH) - rect_x r\<bar> \<le>
           1 / 2 + fromW / toW / 2 + (\<bar>rect_x r\<bar> + fromW / toW) / 2 ^ 50 \<and>
         \<bar>rect_width (round_trip r fromW fromH toW toH) - rect_width r\<bar> \<le>
           1 / 2 + fromW / toW / 2 + (\<bar>rect_width r\<bar> + fromW / toW) / 2 ^ 50 \<and>
         \<bar>rect_y (round_trip r fromW fromH toW toH) - rect_y r\<bar> \<le>
           1 / 2 + fromH / toH / 2 + (\<bar>rect_y r\<bar> + fromH / toH) / 2 ^ 50 \<and>
         \<bar>rect_height (round_trip r fromW fromH toW toH) - rect_height r\<bar> \<le>
           1 / 2 + fromH / toH / 2 + (\<bar>rect_height r\<bar> + fromH / toH) / 2 ^ 50 \<and>
         (fromW \<le> toW \<and> toW \<le> 2 ^ 20 \<longrightarrow>
            \<bar>rect_x (round_trip r fromW fromH toW toH) - rect_x r\<bar> \<le> 1 \<and>
            \<bar>rect_width (round_trip r fromW fromH toW toH) - rect_width r\<bar> \<le> 1) \<and>
         (fromH \<le> toH \<and> toH \<le> 2 ^ 20 \<longrightarrow>
            \<bar>rect_y (round_trip r fromW fromH toW toH) - rect_y r\<bar> \<le> 1 \<and>
            \<bar>rect_height (round_trip r fromW fromH toW toH) - rect_height r\<bar> \<le> 1) \<and>
         mapPreviewBoxToImageCoords r fromW fromH toW toH =
           mapScreenRectToImage r fromW fromH toW toH"
proof -
  have d: "fl (rect_x r) = rect_x r" "fl (rect_y r) = rect_y r"
    "fl (rect_width r) = rect_width r" "fl (rect_height r) = rect_height r"
    using assms(9) by (simp_all add: js_rect_def js_number_def)
  have i: "0 \<le> rect_x r" "rect_x r \<le> fromW" "rect_width r \<le> fromW"
    "0 \<le> rect_y r" "rect_y r \<le> fromH" "rect_height r \<le> fromH"
    using assms(10,11,12) unfolding inside_def by linarith+
  have w: "\<bar>there_and_back (rect_x r) fromW toW - rect_x r\<bar> \<le> 1"
    "\<bar>there_and_back (rect_width r) fromW toW - rect_width r\<bar> \<le> 1"
    if "fromW \<le> toW" "toW \<le> 2 ^ 20"
    using that assms(2,11) d i by (simp_all add: there_and_back_unit)
  have h: "\<bar>there_and_back (rect_y r) fromH toH - rect_y r\<bar> \<le> 1"
    "\<bar>there_and_back (rect_height r) fromH toH - rect_height r\<bar> \<le> 1"
    if "fromH \<le> toH" "toH \<le> 2 ^ 20"
    using that assms(4,12) d i by (simp_all add: there_and_back_unit)
  show ?thesis
    unfolding round_trip_fields mappers_agree
    using there_and_back_bound [OF assms(2,6)] there_and_back_bound [OF assms(4,8)] w h
    by blast
qed

theorem round_trip_stability_witness:
  "\<bar>rect_x (round_trip
        \<lparr>rect_x = fl 76.05, rect_y = 10, rect_width = 100, rect_height = 50\<rparr>
        720 1280 800 1422) - fl 76.05\<bar> \<le> 1 \<and>
   round_trip \<lparr>rect_x = fl 76.05, rect_y = 10, rect_width = 100, rect_height = 50\<rparr>
     720 1280 800 1422 =
   \<lparr>rect_x = 77, rect_y = 10, rect_width = 100, rect_height = 50\<rparr>"
proof -
  have n: "js_number 720" "js_number 1280" "js_number 800" "js_number 1422"
    by code_simp+
  have r: "js_rect \<lparr>rect_x = fl 76.05, rect_y = 10, rect_width = 100, rect_height = 50\<rparr>"
    "inside \<lparr>rect_x = fl 76.05, rect_y = 10, rect_width = 100, rect_height = 50\<rparr> 720 1280"
    by code_simp+
  have e: "round_trip \<lparr>rect_x = fl 76.05, rect_y = 10, rect_width = 100, rect_height = 50\<rparr>
     720 1280 800 1422 =
   \<lparr>rect_x = 77, rect_y = 10, rect_width = 100, rect_height = 50\<rparr>"
    by code_simp
  show ?thesis
    using round_trip_stability [OF n(1) _ n(2) _ n(3) _ n(4) _ r] e by simp
qed

section \<open>The smoother\<close>

lemma whole_int: "whole v \<Longrightarrow> \<exists>n. v = of_int n"
  unfolding whole_def by metis

lemma fl_pixel_diff:
  assumes "pixel a" "pixel b"
  shows "fl (a - b) = a - b"
proof -
  obtain m n where a: "a = of_int m" and b: "b = of_int n"
    using assms whole_int unfolding pixel_def by blast
  have "\<bar>real_of_int m\<bar> \<le> 2 ^ 52" "\<bar>real_of_int n\<bar> \<le> 2 ^ 52"
    using assms unfolding pixel_def a b by simp_all
  then have "\<bar>m\<bar> \<le> 2 ^ 52" "\<bar>n\<bar> \<le> 2 ^ 52"
    by (metis of_int_abs of_int_le_iff of_int_numeral of_int_power)+
  then have "\<bar>m - n\<bar> \<le> 2 ^ 53" by simp
  from fl_of_int [OF this] show ?thesis by (simp add: a b)
qed

lemma fl_pixel:
  assumes "pixel a"
  shows "fl a = a"
proof -
  have "pixel 0" by (simp add: pixel_def whole_def)
  from fl_pixel_diff [OF assms this] show ?thesis by simp
qed

lemma lerp_zero:
  assumes "fl p = p"
  shows "js_add p (js_mul (js_sub n p) 0) = p"
  using assms by (simp add: js_add_def js_mul_def fl_zero)

lemma lerp_one_pixel:
  assumes "pixel p" "pixel n"
  shows "js_add p (js_mul (js_sub n p) 1) = n"
  using fl_pixel_diff [OF assms(2,1)] fl_pixel [OF assms(2)]
  by (simp add: js_add_def js_mul_def js_sub_def)

lemma lerp_one_near:
  "\<bar>js_add p (js_mul (js_sub n p) 1) - n\<bar> \<le> (\<bar>n - p\<bar> + \<bar>n\<bar>) / 2 ^ 52"
proof -
  define D where "D = fl (n - p)"
  define u :: real where "u = 1 / 2 ^ 53"
  have u: "0 < u" "u \<le> 1" by (simp_all add: u_def)
  have r: "js_add p (js_mul (js_sub n p) 1) = fl (p + D)"
    by (simp add: js_add_def js_mul_def js_sub_def D_def fl_idem)
  define e1 where "e1 = \<bar>n - p\<bar> * u"
  define e2 where "e2 = \<bar>n\<bar> * u"
  have e: "0 \<le> e1" "0 \<le> e2" using u by (simp_all add: e1_def e2_def)
  have d: "\<bar>D - (n - p)\<bar> \<le> e1"
    using fl_err [of "n - p"] by (simp add: D_def u_def e1_def)
  have "\<bar>p + D\<bar> \<le> \<bar>n\<bar> + e1" using d by linarith
  then have "\<bar>p + D\<bar> * u \<le> (\<bar>n\<bar> + e1) * u"
    using u by (intro mult_right_mono) simp_all
  also have "\<dots> = e2 + e1 * u" by (simp add: e2_def algebra_simps)
  also have "\<dots> \<le> e2 + e1" using u e by (simp add: mult_left_le)
  finally have s: "\<bar>p + D\<bar> * u \<le> e2 + e1" .
  have "\<bar>fl (p + D) - (p + D)\<bar> \<le> \<bar>p + D\<bar> * u"
    using fl_err [of "p + D"] by (simp add: u_def)
  with s d e have "\<bar>fl (p + D) - n\<bar> \<le> 2 * e1 + 2 * e2" by linarith
  also have "\<dots> = (\<bar>n - p\<bar> + \<bar>n\<bar>) / 2 ^ 52" by (simp add: e1_def e2_def u_def)
  finally show ?thesis unfolding r .
qed

text \<open>
  Claim C9 says that the smoother returns next when there is no previous rectangle,
  prev at factor 0 and next at factor 1, for all rectangles. Against the third
  identity: from x = 0.7 to x = 0.1 at factor 1 the smoother computes
  0.7 + (0.1 - 0.7) * 1 in doubles, which is 0.09999999999999998, not the double 0.1.
\<close>

theorem smooth_factor_one_counterexample:
  "smoothBoxTransition
     (Some \<lparr>rect_x = fl 0.7, rect_y = 0, rect_width = 100, rect_height = 50\<rparr>)
     \<lparr>rect_x = fl 0.1, rect_y = 0, rect_width = 100, rect_height = 50\<rparr> 1 =
   \<lparr>rect_x = 900719925474099 / 9007199254740992, rect_y = 0, rect_width = 100,
    rect_height = 50\<rparr> \<and>
   fl 0.1 = 3602879701896397 / 36028797018963968 \<and>
   smoothBoxTransition
     (Some \<lparr>rect_x = fl 0.7, rect_y = 0, rect_width = 100, rect_height = 50\<rparr>)
     \<lparr>rect_x = fl 0.1, rect_y = 0, rect_width = 100, rect_height = 50\<rparr> 1 \<noteq>
   \<lparr>rect_x = fl 0.1, rect_y = 0, rect_width = 100, rect_height = 50\<rparr>"
  by code_simp

text \<open>
  Claim C9, amended. Without a previous rectangle the smoother returns next, for
  every next and every factor. At factor 0 it returns prev, for all rectangles of
  numbers of the detection path. At factor 1 it returns next when the fields of prev
  and next are whole numbers of magnitude at most 2 ^ 52; for other rectangles each
  field of the result differs from that of next by at most
  (\<bar>next - prev\<bar> + \<bar>next\<bar>) / 2 ^ 52, the rounding of the subtraction and the
  addition. Each of the four fields is interpolated on its own, as
  prev + (next - prev) * f in doubles.
\<close>

theorem smooth_endpoints:
  "smoothBoxTransition None next f = next \<and>
   (js_rect prev \<and> js_rect next \<longrightarrow> smoothBoxTransition (Some prev) next 0 = prev) \<and>
   (pixel_rect prev \<and> pixel_rect next \<longrightarrow> smoothBoxTransition (Some prev) next 1 = next) \<and>
   (js_rect prev \<and> js_rect next \<longrightarrow>
      \<bar>rect_x (smoothBoxTransition (Some prev) next 1) - rect_x next\<bar> \<le>
        (\<bar>rect_x next - rect_x prev\<bar> + \<bar>rect_x next\<bar>) / 2 ^ 52 \<and>
      \<bar>rect_y (smoothBoxTransition (Some prev) next 1) - rect_y next\<bar> \<le>
        (\<bar>rect_y next - rect_y prev\<bar> + \<bar>rect_y next\<bar>) / 2 ^ 52 \<and>
      \<bar>rect_width (smoothBoxTransition (Some prev) next 1) - rect_width next\<bar> \<le>
        (\<bar>rect_width next - rect_width prev\<bar> + \<bar>rect_width next\<bar>) / 2 ^ 52 \<and>
      \<bar>rect_height (smoothBoxTransition (Some prev) next 1) - rect_height next\<bar> \<le>
        (\<bar>rect_height next - rect_height prev\<bar> + \<bar>rect_height next\<bar>) / 2 ^ 52) \<and>
   smoothBoxTransition (Some prev) next f =
     \<lparr>rect_x = js_add (rect_x prev) (js_mul (js_sub (rect_x next) (rect_x prev)) f),
      rect_y = js_add (rect_y prev) (js_mul (js_sub (rect_y next) (rect_y prev)) f),
      rect_width =
        js_add (rect_width prev) (js_mul (js_sub (rect_width next) (rect_width prev)) f),
      rect_height =
        js_add (rect_height prev)
          (js_mul (js_sub (rect_height next) (rect_height prev)) f)\<rparr>"
proof -
  have a: "smoothBoxTransition None next f = next"
    by (simp add: smoothBoxTransition_def)
  have b: "smoothBoxTransition (Some prev) next 0 = prev" if "js_rect prev"
    using that by (simp add: smoothBoxTransition_def js_rect_def js_number_def lerp_zero)
  have c: "smoothBoxTransition (Some prev) next 1 = next"
    if "pixel_rect prev" "pixel_rect next"
    using that by (simp add: smoothBoxTransition_def pixel_rect_def lerp_one_pixel)
  have d: "\<bar>rect_x (smoothBoxTransition (Some prev) next 1) - rect_x next\<bar> \<le>
        (\<bar>rect_x next - rect_x prev\<bar> + \<bar>rect_x next\<bar>) / 2 ^ 52"
    "\<bar>rect_y (smoothBoxTransition (Some prev) next 1) - rect_y next\<bar> \<le>
        (\<bar>rect_y next - rect_y prev\<bar> + \<bar>rect_y next\<bar>) / 2 ^ 52"
    "\<bar>rect_width (smoothBoxTransition (Some prev) next 1) - rect_width next\<bar> \<le>
        (\<bar>rect_width next - rect_width prev\<bar> + \<bar>rect_width next\<bar>) / 2 ^ 52"
    "\<bar>rect_height (smoothBoxTransition (Some prev) next 1) - rect_height next\<bar> \<le>
        (\<bar>rect_height next - rect_height prev\<bar> + \<bar>rect_height next\<bar>) / 2 ^ 52"
    unfolding smoothBoxTransition_def by (simp_all only: option.case rect.simps lerp_one_near)
  have e: "smoothBoxTransition (Some prev) next f =
     \<lparr>rect_x = js_add (rect_x prev) (js_mul (js_sub (rect_x next) (rect_x prev)) f),
      rect_y = js_add (rect_y prev) (js_mul (js_sub (rect_y next) (rect_y prev)) f),
      rect_width =
        js_add (rect_width prev) (js_mul (js_sub (rect_width next) (rect_width prev)) f),
      rect_height =
        js_add (rect_height prev)
          (js_mul (js_sub (rect_height next) (rect_height prev)) f)\<rparr>"
    by (simp add: smoothBoxTransition_def)
  show ?thesis
    using a b c d e by blast
qed

theorem smooth_endpoints_witness:
  "smoothBoxTransition
     (Some \<lparr>rect_x = 70, rect_y = 195, rect_width = 260, rect_height = 58\<rparr>)
     \<lparr>rect_x = 175, rect_y = 430, rect_width = 650, rect_height = 100\<rparr> 0 =
   \<lparr>rect_x = 70, rect_y = 195, rect_width = 260, rect_height = 58\<rparr> \<and>
   smoothBoxTransition
     (Some \<lparr>rect_x = 70, rect_y = 195, rect_width = 260, rect_height = 58\<rparr>)
     \<lparr>rect_x = 175, rect_y = 430, rect_width = 650, rect_height = 100\<rparr> 1 =
   \<lparr>rect_x = 175, rect_y = 430, rect_width = 650, rect_height = 100\<rparr> \<and>
   \<bar>rect_x (smoothBoxTransition
       (Some \<lparr>rect_x = fl 0.7, rect_y = 0, rect_width = 100, rect_height = 50\<rparr>)
       \<lparr>rect_x = fl 0.1, rect_y = 0, rect_width = 100, rect_height = 50\<rparr> 1) - fl 0.1\<bar> \<le>
     (\<bar>fl 0.1 - fl 0.7\<bar> + \<bar>fl 0.1\<bar>) / 2 ^ 52"
proof -
  have p: "pixel_rect \<lparr>rect_x = 70, rect_y = 195, rect_width = 260, rect_height = 58\<rparr>"
    "pixel_rect \<lparr>rect_x = 175, rect_y = 430, rect_width = 650, rect_height = 100\<rparr>"
    "js_rect \<lparr>rect_x = 70, rect_y = 195, rect_width = 260, rect_height = 58\<rparr>"
    "js_rect \<lparr>rect_x = 175, rect_y = 430, rect_width = 650, rect_height = 100\<rparr>"
    "js_rect \<lparr>rect_x = fl 0.7, rect_y = 0, rect_width = 100, rect_height = 50\<rparr>"
    "js_rect \<lparr>rect_x = fl 0.1, rect_y = 0, rect_width = 100, rect_height = 50\<rparr>"
    by code_simp+
  show ?thesis
    using p
      smooth_endpoints
        [of "\<lparr>rect_x = 175, rect_y = 430, rect_width = 650, rect_height = 100\<rparr>" 0
            "\<lparr>rect_x = 70, rect_y = 195, rect_width = 260, rect_height = 58\<rparr>"]
      smooth_endpoints
        [of "\<lparr>rect_x = fl 0.1, rect_y = 0, rect_width = 100, rect_height = 50\<rparr>" 0
            "\<lparr>rect_x = fl 0.7, rect_y = 0, rect_width = 100, rect_height = 50\<rparr>"]
    by simp
qed

section \<open>The fast estimator\<close>

text \<open>
  Claim C10: for a 1000 by 2000 container and the default configuration the fast
  estimator returns width 650 and height 100 (the cap of 100 applies, as 2000 * 0.10 is
  200), at y = 2000 * 0.18 - 50 = 310. The defaults are the same whether the options
  are absent or given with the default values, as the decimal numbers or as the
  doubles that the literals of the sources denote.
\<close>

theorem fast_default_scenario:
  "detectQuestionAreaFast 1000 2000 None =
     \<lparr>rect_x = 175, rect_y = 310, rect_width = 650, rect_height = 100\<rparr> \<and>
   detectQuestionAreaFast 1000 2000
     (Some \<lparr>verticalBias = Some 0.18, widthRatio = Some 0.65, heightRatio = Some 0.10\<rparr>) =
     \<lparr>rect_x = 175, rect_y = 310, rect_width = 650, rect_height = 100\<rparr> \<and>
   rect_y (detectQuestionAreaFast 1000 2000 None) = 2000 * 0.18 - 50 \<and>
   detectQuestionAreaFast 1000 2000
     (Some \<lparr>verticalBias = Some (fl 0.18), widthRatio = Some (fl 0.65),
            heightRatio = Some (fl 0.10)\<rparr>) =
     \<lparr>rect_x = 175, rect_y = 310, rect_width = 650, rect_height = 100\<rparr>"
  by code_simp

text \<open>The horizontal half of the fast estimator.\<close>

lemma fast_axis_x:
  assumes "fl pw = pw" "0 < pw" "0 \<le> wr" "wr \<le> 1"
  defines "bw \<equiv> js_mul pw wr"
  defines "x \<equiv> max 0 (min (js_div (js_sub pw bw) 2) (js_sub pw bw))"
  shows "0 \<le> bw" "bw \<le> pw" "0 \<le> x" "x + bw \<le> pw" "0 < wr \<Longrightarrow> 0 < bw"
proof -
  show w0: "0 \<le> bw" unfolding bw_def js_mul_def using assms(2,3) by (intro fl_nonneg) simp
  have "pw * wr \<le> pw" using assms(2,4) by (simp add: mult_left_le)
  then show w1: "bw \<le> pw"
    unfolding bw_def js_mul_def using assms(1,2) by (intro fl_le_double) simp_all
  show "0 \<le> x" unfolding x_def by simp
  define d where "d = js_sub pw bw"
  have d0: "0 \<le> d" unfolding d_def js_sub_def using w1 by (intro fl_nonneg) simp
  have "d \<le> (pw - bw) + \<bar>pw - bw\<bar> / 2 ^ 53" unfolding d_def js_sub_def by (rule fl_upper)
  then have d1: "d \<le> (pw - bw) + (pw - bw) / 2 ^ 53" using w1 by simp
  have h: "js_div d 2 = d / 2"
    unfolding js_div_def fl_half by (simp add: d_def js_sub_def fl_idem)
  have "x = d / 2" unfolding x_def d_def [symmetric] h using d0 by simp
  moreover have "(pw - bw) / 2 ^ 53 \<le> pw - bw" using w1 by (simp add: field_simps)
  ultimately show "x + bw \<le> pw" using d1 by linarith
  show "0 < bw" if "0 < wr"
    unfolding bw_def js_mul_def using assms(2) that by (intro fl_pos) simp
qed

text \<open>The vertical half, for any raw position \<open>boxY\<close>.\<close>

lemma fast_axis_y:
  fixes boxY :: real
  assumes "fl ph = ph" "0 < ph" "0 \<le> hr" "hr \<le> 1"
  defines "bh \<equiv> min (js_mul ph hr) 100"
  defines "y \<equiv> max 0 (min boxY (js_sub ph bh))"
  shows "0 \<le> bh" "bh \<le> ph" "0 \<le> y" "y + bh \<le> ph + ph / 2 ^ 53" "0 < hr \<Longrightarrow> 0 < bh"
    "y \<le> max 0 boxY"
proof -
  have m0: "0 \<le> js_mul ph hr" unfolding js_mul_def using assms(2,3) by (intro fl_nonneg) simp
  then show h0: "0 \<le> bh" unfolding bh_def by simp
  have "ph * hr \<le> ph" using assms(2,4) by (simp add: mult_left_le)
  then have "js_mul ph hr \<le> ph"
    unfolding js_mul_def using assms(1,2) by (intro fl_le_double) simp_all
  then show h1: "bh \<le> ph" unfolding bh_def by simp
  show "0 \<le> y" unfolding y_def by simp
  define e where "e = js_sub ph bh"
  have e0: "0 \<le> e" unfolding e_def js_sub_def using h1 by (intro fl_nonneg) simp
  have "e \<le> (ph - bh) + \<bar>ph - bh\<bar> / 2 ^ 53" unfolding e_def js_sub_def by (rule fl_upper)
  moreover have "\<bar>ph - bh\<bar> / 2 ^ 53 \<le> ph / 2 ^ 53"
    using h0 h1 by (intro divide_right_mono) simp_all
  ultimately have e1: "e + bh \<le> ph + ph / 2 ^ 53" by linarith
  have "y \<le> e" unfolding y_def e_def [symmetric] using e0 by simp
  with e1 show "y + bh \<le> ph + ph / 2 ^ 53" by linarith
  show "0 < bh" if "0 < hr"
  proof -
    have "0 < js_mul ph hr" unfolding js_mul_def using assms(2) that by (intro fl_pos) simp
    then show ?thesis unfolding bh_def by simp
  qed
  show "y \<le> max 0 boxY" unfolding y_def by simp
qed

lemma fast_Some:
  "detectQuestionAreaFast pw ph
     (Some \<lparr>verticalBias = vb, widthRatio = wr, heightRatio = hr\<rparr>) =
   \<lparr>rect_x =
      max 0 (min (js_div (js_sub pw (js_mul pw (or_default wr (fl 0.65)))) 2)
                 (js_sub pw (js_mul pw (or_default wr (fl 0.65))))),
    rect_y =
      max 0 (min (js_sub (js_mul ph (or_default vb (fl 0.18)))
                    (js_div (min (js_mul ph (or_default hr (fl 0.10))) 100) 2))
                 (js_sub ph (min (js_mul ph (or_default hr (fl 0.10))) 100))),
    rect_width = js_mul pw (or_default wr (fl 0.65)),
    rect_height = min (js_mul ph (or_default hr (fl 0.10))) 100\<rparr>"
  by (simp add: detectQuestionAreaFast_def or_default_def Let_def)

lemma fast_None:
  "detectQuestionAreaFast pw ph None =
   detectQuestionAreaFast pw ph (Some \<lparr>verticalBias = None, widthRatio = None, heightRatio = None\<rparr>)"
  by (simp add: detectQuestionAreaFast_def or_default_def no_options_def)

lemma default_ratios:
  "js_number (fl 0.18)" "0 < fl 0.18" "fl 0.18 \<le> 1 / 5"
  "js_number (fl 0.65)" "0 < fl 0.65" "fl 0.65 \<le> 1"
  "js_number (fl 0.10)" "0 < fl 0.10" "fl 0.10 \<le> 1 / 5"
  by code_simp+

lemma ratio_or_default:
  assumes "ratio_option v" "js_number d" "0 < d" "d \<le> 1"
  shows "0 \<le> or_default v d" "or_default v d \<le> 1" "v \<noteq> Some 0 \<Longrightarrow> 0 < or_default v d"
  using assms by (auto simp: ratio_option_def or_default_def split: option.splits)

text \<open>With the default configuration the box ends well above the bottom edge.\<close>

lemma fast_default_bottom:
  assumes "fl ph = ph" "0 < ph"
  defines "bh \<equiv> min (js_mul ph (fl 0.10)) 100"
  defines "y \<equiv> max 0 (min (js_sub (js_mul ph (fl 0.18)) (js_div bh 2)) (js_sub ph bh))"
  shows "y + bh \<le> ph"
proof -
  define P where "P = js_mul ph (fl 0.18)"
  have P0: "0 \<le> P" unfolding P_def js_mul_def
    using assms(2) default_ratios(2) by (intro fl_nonneg) simp
  have "ph * fl 0.18 \<le> ph * (1 / 5)"
    using assms(2) default_ratios(3) by (intro mult_left_mono) simp_all
  moreover have "P \<le> ph * fl 0.18 + \<bar>ph * fl 0.18\<bar> / 2 ^ 53"
    unfolding P_def js_mul_def by (rule fl_upper)
  moreover have "\<bar>ph * fl 0.18\<bar> = ph * fl 0.18"
    using assms(2) default_ratios(2) by simp
  moreover have "ph * fl 0.18 / 2 ^ 53 \<le> ph * fl 0.18"
    using assms(2) default_ratios(2) by (simp add: field_simps)
  ultimately have P1: "P \<le> 2 * (ph * (1 / 5))" by linarith
  define Q where "Q = js_mul ph (fl 0.10)"
  have Q0: "0 \<le> Q" unfolding Q_def js_mul_def
    using assms(2) default_ratios(8) by (intro fl_nonneg) simp
  have "ph * fl 0.10 \<le> ph * (1 / 5)"
    using assms(2) default_ratios(9) by (intro mult_left_mono) simp_all
  moreover have "Q \<le> ph * fl 0.10 + \<bar>ph * fl 0.10\<bar> / 2 ^ 53"
    unfolding Q_def js_mul_def by (rule fl_upper)
  moreover have "\<bar>ph * fl 0.10\<bar> = ph * fl 0.10"
    using assms(2) default_ratios(8) by simp
  moreover have "ph * fl 0.10 / 2 ^ 53 \<le> ph * fl 0.10"
    using assms(2) default_ratios(8) by (simp add: field_simps)
  ultimately have Q1: "Q \<le> 2 * (ph * (1 / 5))" by linarith
  have b0: "0 \<le> bh" and b1: "bh \<le> Q" unfolding bh_def Q_def [symmetric] using Q0 by simp_all
  have "0 \<le> js_div bh 2" unfolding js_div_def using b0 by (intro fl_nonneg) simp
  then have "P - js_div bh 2 \<le> P" by simp
  moreover have "fl P = P" unfolding P_def js_mul_def by (rule fl_idem)
  ultimately have "js_sub P (js_div bh 2) \<le> P"
    unfolding js_sub_def using P0 by (intro fl_le_double)
  then have "y \<le> P" unfolding y_def P_def [symmetric] using P0 by simp
  with P1 Q1 b1 have "y + bh \<le> 4 * (ph * (1 / 5))" by linarith
  also have "\<dots> \<le> ph" using assms(2) by simp
  finally show ?thesis .
qed

text \<open>
  Claim C7 says that for positive container sizes and ratios from 0 to 1 the fast
  estimator returns a rectangle of positive width and height fully inside the
  container. Against that: a width ratio of 0 gives a rectangle of width 0; and in a
  container of 400 by 683.4285714285714 with vertical bias 1 and height ratio 0.09
  the bottom limit 683.4285714285714 - 61.50857142857143 is rounded up to
  621.9200000000001, so that y + height exceeds the height of the container, also
  as \<^verbatim>\<open>isValidBox\<close> computes the sum.
\<close>

theorem fast_estimator_counterexample:
  "rect_width (detectQuestionAreaFast 1000 2000
      (Some \<lparr>verticalBias = Some (fl 0.18), widthRatio = Some 0,
             heightRatio = Some (fl 0.10)\<rparr>)) = 0 \<and>
   \<not> isValidBox (detectQuestionAreaFast 1000 2000
      (Some \<lparr>verticalBias = Some (fl 0.18), widthRatio = Some 0,
             heightRatio = Some (fl 0.10)\<rparr>)) 1000 2000 \<and>
   detectQuestionAreaFast 400 (fl 683.4285714285714)
      (Some \<lparr>verticalBias = Some 1, widthRatio = Some (fl 0.65),
             heightRatio = Some (fl 0.09)\<rparr>) =
     \<lparr>rect_x = 70, rect_y = 341904135773225 / 549755813888, rect_width = 260,
      rect_height = 1082070231897679 / 17592186044416\<rparr> \<and>
   fl 683.4285714285714 <
     341904135773225 / 549755813888 + 1082070231897679 / 17592186044416 \<and>
   \<not> isValidBox (detectQuestionAreaFast 400 (fl 683.4285714285714)
      (Some \<lparr>verticalBias = Some 1, widthRatio = Some (fl 0.65),
             heightRatio = Some (fl 0.09)\<rparr>)) 400 (fl 683.4285714285714)"
  by code_simp

text \<open>
  Claim C7, amended. For positive container sizes, however small, and a
  configuration whose ratios are between 0 and 1 (a ratio that is left out takes its
  default), all of them numbers of the detection path, the rectangle of the fast
  estimator has x and y of at least 0, a width and a height of at least 0,
  x + width of at most the container width, and y + height of at most the container
  height times 1 + 1 / 2 ^ 53, the rounding of the bottom limit. The width is
  positive unless the width ratio is 0, the height unless the height ratio is 0.
  With the default configuration the rectangle is positive in size and fully inside
  the container, and \<^verbatim>\<open>isValidBox\<close> accepts it.
\<close>

theorem fast_inside_container:
  assumes "js_number pw" "0 < pw" "js_number ph" "0 < ph"
    and "ratio_option vb" "ratio_option wr" "ratio_option hr"
  shows "0 \<le> rect_x (detectQuestionAreaFast pw ph
           (Some \<lparr>verticalBias = vb, widthRatio = wr, heightRatio = hr\<rparr>)) \<and>
         0 \<le> rect_y (detectQuestionAreaFast pw ph
           (Some \<lparr>verticalBias = vb, widthRatio = wr, heightRatio = hr\<rparr>)) \<and>
         0 \<le> rect_width (detectQuestionAreaFast pw ph
           (Some \<lparr>verticalBias = vb, widthRatio = wr, heightRatio = hr\<rparr>)) \<and>
         0 \<le> rect_height (detectQuestionAreaFast pw ph
           (Some \<lparr>verticalBias = vb, widthRatio = wr, heightRatio = hr\<rparr>)) \<and>
         rect_x (detectQuestionAreaFast pw ph
           (Some \<lparr>verticalBias = vb, widthRatio = wr, heightRatio = hr\<rparr>)) +
         rect_width (detectQuestionAreaFast pw ph
           (Some \<lparr>verticalBias = vb, widthRatio = wr, heightRatio = hr\<rparr>)) \<le> pw \<and>
         rect_y (detectQuestionAreaFast pw ph
           (Some \<lparr>verticalBias = vb, widthRatio = wr, heightRatio = hr\<rparr>)) +
         rect_height (detectQuestionAreaFast pw ph
           (Some \<lparr>verticalBias = vb, widthRatio = wr, heightRatio = hr\<rparr>)) \<le>
           ph + ph / 2 ^ 53 \<and>
         (wr \<noteq> Some 0 \<longrightarrow>
            0 < rect_width (detectQuestionAreaFast pw ph
              (Some \<lparr>verticalBias = vb, widthRatio = wr, heightRatio = hr\<rparr>))) \<and>
         (hr \<noteq> Some 0 \<longrightarrow>
            0 < rect_height (detectQuestionAreaFast pw ph
              (Some \<lparr>verticalBias = vb, widthRatio = wr, heightRatio = hr\<rparr>))) \<and>
         isValidBox (detectQuestionAreaFast pw ph None) pw ph \<and>
         inside (detectQuestionAreaFast pw ph None) pw ph"
proof -
  have p: "fl pw = pw" "fl ph = ph" using assms(1,3) by (simp_all add: js_number_def)
  define W where "W = or_default wr (fl 0.65)"
  define H where "H = or_default hr (fl 0.10)"
  have W: "0 \<le> W" "W \<le> 1"
    unfolding W_def using assms(6) default_ratios(4,5,6) by (rule ratio_or_default)+
  have W3: "0 < W" if "wr \<noteq> Some 0"
    unfolding W_def using assms(6) default_ratios(4,5,6) that by (rule ratio_or_default(3))
  have t: "fl 0.10 \<le> 1" using default_ratios(9) by linarith
  have H: "0 \<le> H" "H \<le> 1"
    unfolding H_def using assms(7) default_ratios(7,8) t by (rule ratio_or_default)+
  have H3: "0 < H" if "hr \<noteq> Some 0"
    unfolding H_def using assms(7) default_ratios(7,8) t that by (rule ratio_or_default(3))
  note x = fast_axis_x [OF p(1) assms(2) W(1,2)]
  note y = fast_axis_y [OF p(2) assms(4) H(1,2)]
  have a: "0 \<le> rect_x (detectQuestionAreaFast pw ph
           (Some \<lparr>verticalBias = vb, widthRatio = wr, heightRatio = hr\<rparr>))"
    "0 \<le> rect_y (detectQuestionAreaFast pw ph
           (Some \<lparr>verticalBias = vb, widthRatio = wr, heightRatio = hr\<rparr>))"
    "0 \<le> rect_width (detectQuestionAreaFast pw ph
           (Some \<lparr>verticalBias = vb, widthRatio = wr, heightRatio = hr\<rparr>))"
    "0 \<le> rect_height (detectQuestionAreaFast pw ph
           (Some \<lparr>verticalBias = vb, widthRatio = wr, heightRatio = hr\<rparr>))"
    "rect_x (detectQuestionAreaFast pw ph
           (Some \<lparr>verticalBias = vb, widthRatio = wr, heightRatio = hr\<rparr>)) +
     rect_width (detectQuestionAreaFast pw ph
           (Some \<lparr>verticalBias = vb, widthRatio = wr, heightRatio = hr\<rparr>)) \<le> pw"
    "rect_y (detectQuestionAreaFast pw ph
           (Some \<lparr>verticalBias = vb, widthRatio = wr, heightRatio = hr\<rparr>)) +
     rect_height (detectQuestionAreaFast pw ph
           (Some \<lparr>verticalBias = vb, widthRatio = wr, heightRatio = hr\<rparr>)) \<le>
       ph + ph / 2 ^ 53"
    unfolding fast_Some W_def [symmetric] H_def [symmetric]
    using x(1,3,4) y(1,3,4) by (simp_all only: rect.simps)
  have b: "0 < rect_width (detectQuestionAreaFast pw ph
           (Some \<lparr>verticalBias = vb, widthRatio = wr, heightRatio = hr\<rparr>))"
    if "wr \<noteq> Some 0"
    unfolding fast_Some W_def [symmetric] using x(5) [OF W3 [OF that]]
    by (simp only: rect.simps)
  have c: "0 < rect_height (detectQuestionAreaFast pw ph
           (Some \<lparr>verticalBias = vb, widthRatio = wr, heightRatio = hr\<rparr>))"
    if "hr \<noteq> Some 0"
    unfolding fast_Some H_def [symmetric] using y(5) [OF H3 [OF that]]
    by (simp only: rect.simps)
  have d1: "0 \<le> fl 0.65" "fl 0.65 \<le> 1" "0 \<le> fl 0.10" "fl 0.10 \<le> 1"
    using default_ratios by linarith+
  note dx = fast_axis_x [OF p(1) assms(2) d1(1,2)]
  note dy = fast_axis_y [OF p(2) assms(4) d1(3,4)]
  note db = fast_default_bottom [OF p(2) assms(4)]
  define r where "r = detectQuestionAreaFast pw ph None"
  have r: "0 \<le> rect_x r" "0 \<le> rect_y r" "0 < rect_width r" "0 < rect_height r"
    "rect_x r + rect_width r \<le> pw" "rect_y r + rect_height r \<le> ph"
    unfolding r_def fast_None fast_Some or_default_def option.case
    using dx(3,4) dx(5) [OF default_ratios(5)] dy(3) dy(5) [OF default_ratios(8)] db
    by (simp_all only: rect.simps)
  have "fl (rect_x r + rect_width r) \<le> pw"
    using r(5) assms(2) p(1) by (intro fl_le_double) simp_all
  moreover have "fl (rect_y r + rect_height r) \<le> ph"
    using r(6) assms(4) p(2) by (intro fl_le_double) simp_all
  ultimately have v: "isValidBox r pw ph"
    using r by (simp add: isValidBox_def js_add_def)
  have i: "inside r pw ph" using r by (simp add: inside_def)
  show ?thesis
    using a b c v i unfolding r_def by blast
qed

theorem fast_inside_container_witness:
  "rect_y (detectQuestionAreaFast 400 (fl 683.4285714285714)
      (Some \<lparr>verticalBias = Some 1, widthRatio = Some (fl 0.65),
             heightRatio = Some (fl 0.09)\<rparr>)) +
   rect_height (detectQuestionAreaFast 400 (fl 683.4285714285714)
      (Some \<lparr>verticalBias = Some 1, widthRatio = Some (fl 0.65),
             heightRatio = Some (fl 0.09)\<rparr>)) \<le>
     fl 683.4285714285714 + fl 683.4285714285714 / 2 ^ 53 \<and>
   0 < rect_width (detectQuestionAreaFast 400 (fl 683.4285714285714)
      (Some \<lparr>verticalBias = Some 1, widthRatio = Some (fl 0.65),
             heightRatio = Some (fl 0.09)\<rparr>)) \<and>
   isValidBox (detectQuestionAreaFast 400 (fl 683.4285714285714) None)
     400 (fl 683.4285714285714)"
proof -
  have n: "js_number 400" "js_number (fl 683.4285714285714)" "0 < fl 683.4285714285714"
    "ratio_option (Some 1)" "ratio_option (Some (fl 0.65))" "ratio_option (Some (fl 0.09))"
    "fl 0.65 \<noteq> 0"
    by code_simp+
  show ?thesis
    using fast_inside_container [OF n(1) _ n(2,3,4,5,6)] n(7) by simp
qed

section \<open>What the cropper receives\<close>

lemma whole_iff_Ints: "whole v \<longleftrightarrow> v \<in> \<int>"
  unfolding whole_def by (metis Ints_of_int of_int_floor)

lemma whole_closed:
  "whole 0" "whole 1"
  "whole a \<Longrightarrow> whole b \<Longrightarrow> whole (a - b)"
  "whole a \<Longrightarrow> whole b \<Longrightarrow> whole (max a b)"
  "whole a \<Longrightarrow> whole b \<Longrightarrow> whole (min a b)"
  by (simp_all add: whole_iff_Ints max_def min_def)

lemma clamp_cropRect_ok:
  assumes r: "whole (originX r)" "whole (originY r)" "whole (crop_width r)" "whole (crop_height r)"
    and p: "whole pw" "whole ph"
    and pos: "0 < crop_width (clamp_cropRect pw ph r)" "0 < crop_height (clamp_cropRect pw ph r)"
  shows "crop_ok (clamp_cropRect pw ph r) pw ph"
proof -
  define oX where "oX = max 0 (min (originX r) (pw - crop_width r))"
  define oY where "oY = max 0 (min (originY r) (ph - crop_height r))"
  have eq: "clamp_cropRect pw ph r =
      \<lparr>originX = oX, originY = oY, crop_width = min (crop_width r) (pw - oX),
       crop_height = min (crop_height r) (ph - oY)\<rparr>"
    by (simp add: clamp_cropRect_def Let_def oX_def oY_def)
  have wo: "whole oX" "whole oY"
    unfolding oX_def oY_def using r p by (intro whole_closed; simp)+
  have ww: "whole (min (crop_width r) (pw - oX))" "whole (min (crop_height r) (ph - oY))"
    using r p wo by (intro whole_closed; simp)+
  have o0: "0 \<le> oX" "0 \<le> oY" by (simp_all add: oX_def oY_def)
  have b: "oX + min (crop_width r) (pw - oX) \<le> pw" "oY + min (crop_height r) (ph - oY) \<le> ph"
    by linarith+
  show ?thesis
    using pos wo ww o0 b unfolding eq crop_ok_def by simp
qed

lemma bound_crop_ok:
  assumes r: "whole (originX r)" "whole (originY r)" "whole (crop_width r)" "whole (crop_height r)"
    and p: "whole pw" "whole ph"
    and res: "bound_crop pw ph r = Inr c"
  shows "crop_ok c pw ph"
proof -
  define photoX where "photoX = max 0 (originX r)"
  define photoY where "photoY = max 0 (originY r)"
  define pW where "pW = max 1 (min (crop_width r) (pw - photoX))"
  define pH where "pH = max 1 (min (crop_height r) (ph - photoY))"
  define exceeds where "exceeds \<longleftrightarrow> photoX + pW > pw \<or> photoY + pH > ph"
  define pW' where "pW' = (if exceeds then min pW (pw - photoX - 1) else pW)"
  define pH' where "pH' = (if exceeds then min pH (ph - photoY - 1) else pH)"
  have eq: "bound_crop pw ph r =
     (if pW' \<le> 0 \<or> pH' \<le> 0 then Inl InvalidCropDimensions
      else if photoX < 0 \<or> photoY < 0 then Inl InvalidCropOrigin
      else Inr \<lparr>originX = photoX, originY = photoY, crop_width = pW', crop_height = pH'\<rparr>)"
    unfolding bound_crop_def Let_def photoX_def photoY_def pW_def pH_def exceeds_def
      pW'_def pH'_def by (rule refl)
  from res have pos: "0 < pW'" "0 < pH'"
    and c: "c = \<lparr>originX = photoX, originY = photoY, crop_width = pW', crop_height = pH'\<rparr>"
    unfolding eq by (auto split: if_splits)
  have wx: "whole photoX" "whole photoY"
    unfolding photoX_def photoY_def using r by (intro whole_closed; simp)+
  have w1: "whole pW" "whole pH"
    unfolding pW_def pH_def using r p wx by (intro whole_closed; simp)+
  have w2: "whole pW'" "whole pH'"
    unfolding pW'_def pH'_def using w1 wx p by (auto intro!: whole_closed)
  have o0: "0 \<le> photoX" "0 \<le> photoY" by (simp_all add: photoX_def photoY_def)
  have b: "photoX + pW' \<le> pw \<and> photoY + pH' \<le> ph"
  proof (cases exceeds)
    case True
    then show ?thesis unfolding pW'_def pH'_def by simp linarith
  next
    case False
    then show ?thesis unfolding pW'_def pH'_def exceeds_def by simp
  qed
  show ?thesis
    using pos wx w2 o0 b unfolding c crop_ok_def by simp
qed

lemma onCapture_crop_call_ok:
  assumes "whole pw" "whole ph" "onCapture_crop_call SW SH pw ph s = Some c"
  shows "crop_ok c pw ph"
proof -
  from assms(3) obtain r where c: "c = clamp_cropRect pw ph r"
    and pos: "0 < crop_width c" "0 < crop_height c"
    and r: "whole (originX r)" "whole (originY r)" "whole (crop_width r)" "whole (crop_height r)"
    unfolding onCapture_crop_call_def onCapture_cropRect_def Let_def
    by (auto simp: whole_js_round split: option.splits if_splits)
  show ?thesis unfolding c using r assms(1,2) pos [unfolded c] by (rule clamp_cropRect_ok)
qed

lemma cropAsync_rect_ok:
  assumes "whole pw" "whole ph" "cropAsync_rect env pw ph box = Inr c"
  shows "crop_ok c pw ph"
proof -
  from assms(3) obtain r where c: "bound_crop pw ph r = Inr c"
    and r: "whole (originX r)" "whole (originY r)" "whole (crop_width r)" "whole (crop_height r)"
    unfolding cropAsync_rect_def Let_def
    by (auto simp: whole_js_round split: if_splits)
  show ?thesis using r assms(1,2) c by (rule bound_crop_ok)
qed


text \<open>
  Claim C4: every rectangle with which the cropper is called has whole-numbered
  origin and size, a positive width and height, a non-negative origin, and origin
  plus size within the photo. This holds at both places that crop, the capture
  handler of the camera screen and \<^verbatim>\<open>cropAsync\<close> of the preview screen, for every
  box and for every photo whose pixel width and height are positive whole numbers:
  either the caller has clamped the rectangle, or it does not call.
\<close>

theorem cropper_receives_valid_rect:
  assumes "whole photoWidth" "whole photoHeight" "0 < photoWidth" "0 < photoHeight"
    and "0 < SCREEN_WIDTH" "0 < SCREEN_HEIGHT"
  shows "(onCapture_crop_call SCREEN_WIDTH SCREEN_HEIGHT photoWidth photoHeight s = Some c \<longrightarrow>
            crop_ok c photoWidth photoHeight) \<and>
         (cropAsync_rect env photoWidth photoHeight box = Inr c' \<longrightarrow>
            crop_ok c' photoWidth photoHeight)"
  using assms(1,2) onCapture_crop_call_ok cropAsync_rect_ok by blast

theorem cropper_receives_valid_rect_witness:
  "onCapture_crop_call 400 800 3000 4000
     \<lparr>isReady = True, isAutoDetecting = True,
      detectedBox = Some \<lparr>rect_x = 70, rect_y = 195.4, rect_width = 260, rect_height = 58\<rparr>,
      isBoxLocked = False, isUserInteracting = False, lastDetectedBoxRef = None,
      manualBoxRef = None\<rparr> =
     Some \<lparr>originX = 850, originY = 977, crop_width = 1300, crop_height = 290\<rparr> \<and>
   crop_ok \<lparr>originX = 850, originY = 977, crop_width = 1300, crop_height = 290\<rparr> 3000 4000 \<and>
   cropAsync_rect \<lparr>layout_width = 400, layout_height = 300, window_width = 400,
                   window_height = 800\<rparr> 3000 4000
     \<lparr>rect_x = 140, rect_y = 30, rect_width = 60, rect_height = 35\<rparr> =
     Inr \<lparr>originX = 700, originY = 400, crop_width = 800, crop_height = 467\<rparr> \<and>
   crop_ok \<lparr>originX = 700, originY = 400, crop_width = 800, crop_height = 467\<rparr> 3000 4000"
proof -
  have a: "onCapture_crop_call 400 800 3000 4000
     \<lparr>isReady = True, isAutoDetecting = True,
      detectedBox = Some \<lparr>rect_x = 70, rect_y = 195.4, rect_width = 260, rect_height = 58\<rparr>,
      isBoxLocked = False, isUserInteracting = False, lastDetectedBoxRef = None,
      manualBoxRef = None\<rparr> =
     Some \<lparr>originX = 850, originY = 977, crop_width = 1300, crop_height = 290\<rparr>"
    by code_simp
  have b: "cropAsync_rect \<lparr>layout_width = 400, layout_height = 300, window_width = 400,
                   window_height = 800\<rparr> 3000 4000
     \<lparr>rect_x = 140, rect_y = 30, rect_width = 60, rect_height = 35\<rparr> =
     Inr \<lparr>originX = 700, originY = 400, crop_width = 800, crop_height = 467\<rparr>"
    by code_simp
  have w: "whole 3000" "whole 4000" by (simp_all add: whole_def)
  show ?thesis
    using a b cropper_receives_valid_rect [OF w, of 400 800]
    by simp
qed

section \<open>The density estimator\<close>

lemma analyzeTextDensity_cases:
  "analyzeTextDensity manip img iw ih sw sh =
     (if manip img 200 (js_round (ih / iw * 200)) = None then None
      else Some (density_rect 200 (js_round (ih / iw * 200)) iw ih sw sh))"
  by (simp add: analyzeTextDensity_def Let_def split: option.splits)

text \<open>
  Claim C5: the result of the density estimator does not depend on the pixels of the
  image. For two images with the same source size and the same target size, whatever
  the resizing step makes of either, two successful runs return the same rectangle:
  the one computed from the sizes and the fixed grid alone.
\<close>

theorem density_independent_of_pixels:
  assumes "analyzeTextDensity manip1 img1 iw ih sw sh = Some r1"
    and "analyzeTextDensity manip2 img2 iw ih sw sh = Some r2"
  shows "r1 = r2 \<and> r1 = density_rect 200 (js_round (ih / iw * 200)) iw ih sw sh"
  using assms unfolding analyzeTextDensity_cases by (auto split: if_splits)

theorem density_independent_of_pixels_witness:
  "analyzeTextDensity (\<lambda>img w h. Some img) ''white_page'' 3000 4000 400 800 =
     Some (density_rect 200 267 3000 4000 400 800) \<and>
   analyzeTextDensity (\<lambda>img w h. Some (rev img)) ''printed_page'' 3000 4000 400 800 =
     analyzeTextDensity (\<lambda>img w h. Some img) ''white_page'' 3000 4000 400 800"
proof -
  have a: "analyzeTextDensity (\<lambda>img w h. Some img) ''white_page'' 3000 4000 400 800 =
      Some (density_rect 200 267 3000 4000 400 800)"
    by (simp add: analyzeTextDensity_cases js_round_def)
  have b: "analyzeTextDensity (\<lambda>img w h. Some (rev img)) ''printed_page'' 3000 4000 400 800 =
      Some (density_rect 200 267 3000 4000 400 800)"
    by (simp add: analyzeTextDensity_cases js_round_def)
  show ?thesis
    using density_independent_of_pixels [OF a b] a b by simp
qed

lemma detectTextArea_capture:
  "detectTextArea sw sh
     (Some \<lparr>topOffset = Some 120, bottomOffset = Some 120, area_widthRatio = Some 0.85,
            area_heightRatio = Some 0.4, verticalPosition = Some PosUpperCenter\<rparr>) =
   \<lparr>rect_x = (sw - sw * 0.85) / 2, rect_y = 120 + (sh - 120 - 120) * 0.15,
    rect_width = sw * 0.85, rect_height = min ((sh - 120 - 120) * 0.4) (sw * 0.5)\<rparr>"
  by (simp add: detectTextArea_def or_default_def Let_def)

lemma detectTextArea_capture_valid:
  assumes "0 < sw" "240 < sh"
  shows "inside (detectTextArea sw sh
     (Some \<lparr>topOffset = Some 120, bottomOffset = Some 120, area_widthRatio = Some 0.85,
            area_heightRatio = Some 0.4, verticalPosition = Some PosUpperCenter\<rparr>)) sw sh"
    and "0 < rect_width (detectTextArea sw sh
     (Some \<lparr>topOffset = Some 120, bottomOffset = Some 120, area_widthRatio = Some 0.85,
            area_heightRatio = Some 0.4, verticalPosition = Some PosUpperCenter\<rparr>))"
    and "0 < rect_height (detectTextArea sw sh
     (Some \<lparr>topOffset = Some 120, bottomOffset = Some 120, area_widthRatio = Some 0.85,
            area_heightRatio = Some 0.4, verticalPosition = Some PosUpperCenter\<rparr>))"
proof -
  define h where "h = min ((sh - 120 - 120) * 0.4) (sw * 0.5)"
  have "h \<le> (sh - 120 - 120) * 0.4"
    unfolding h_def by (rule min.cobounded1)
  then have "h \<le> (sh - 240) * 0.4" by simp
  moreover have "0 < h"
    unfolding h_def using assms by simp
  ultimately have h: "h \<le> (sh - 240) * 0.4" "0 < h" .
  have eq: "detectTextArea sw sh
     (Some \<lparr>topOffset = Some 120, bottomOffset = Some 120, area_widthRatio = Some 0.85,
            area_heightRatio = Some 0.4, verticalPosition = Some PosUpperCenter\<rparr>) =
     \<lparr>rect_x = (sw - sw * 0.85) / 2, rect_y = 120 + (sh - 120 - 120) * 0.15,
      rect_width = sw * 0.85, rect_height = h\<rparr>"
    unfolding detectTextArea_capture h_def by (rule refl)
  show "inside (detectTextArea sw sh
     (Some \<lparr>topOffset = Some 120, bottomOffset = Some 120, area_widthRatio = Some 0.85,
            area_heightRatio = Some 0.4, verticalPosition = Some PosUpperCenter\<rparr>)) sw sh"
    unfolding eq using h assms by (simp add: inside_def field_simps)
  show "0 < rect_width (detectTextArea sw sh
     (Some \<lparr>topOffset = Some 120, bottomOffset = Some 120, area_widthRatio = Some 0.85,
            area_heightRatio = Some 0.4, verticalPosition = Some PosUpperCenter\<rparr>))"
    unfolding eq using assms by simp
  show "0 < rect_height (detectTextArea sw sh
     (Some \<lparr>topOffset = Some 120, bottomOffset = Some 120, area_widthRatio = Some 0.85,
            area_heightRatio = Some 0.4, verticalPosition = Some PosUpperCenter\<rparr>))"
    unfolding eq using h by simp
qed

text \<open>
  Claim C8 says that when the image processing fails the density estimator returns
  \<^verbatim>\<open>null\<close> and the caller still produces a valid crop rectangle by falling
  back to the heuristic. Against the second half, on a screen of 400 by 200: the
  estimator returns \<^verbatim>\<open>null\<close>, and the capture handler navigates with the
  rectangle of \<^verbatim>\<open>detectTextArea\<close>, whose height is - 16.
\<close>

theorem fallback_invalid_counterexample:
  "analyzeTextDensity (\<lambda>u w h. None :: unit option) ''photo.jpg'' 3000 4000 400 200 = None \<and>
   onCapture_analyze (\<lambda>u w h. None :: unit option) (\<lambda>u. Some u) False 400 200
       (Camera (Some \<lparr>uri = ''photo.jpg'', photo_width = 3000, photo_height = 4000\<rparr>)) =
     NavigatePreview \<lparr>uri = ''photo.jpg'', photo_width = 3000, photo_height = 4000\<rparr>
       \<lparr>rect_x = 30, rect_y = 114, rect_width = 340, rect_height = - 16\<rparr> \<and>
   \<not> 0 < rect_height \<lparr>rect_x = 30, rect_y = 114, rect_width = 340, rect_height = - 16\<rparr> \<and>
   \<not> isValidBox \<lparr>rect_x = 30, rect_y = 114, rect_width = 340, rect_height = - 16\<rparr> 400 200"
  by (simp add: analyzeTextDensity_cases onCapture_analyze_def detectTextArea_def
      or_default_def isValidBox_def Let_def)

text \<open>
  Claim C8, amended. When the image processing fails the density estimator returns
  \<^verbatim>\<open>null\<close>, and the capture handler that called it then navigates to the preview
  with the rectangle of the heuristic \<^verbatim>\<open>detectTextArea\<close> instead, on Android (after
  the flip) as elsewhere. On a screen wider than 0 and taller than the 240 units of
  the two offsets that rectangle is valid: positive in size and inside the screen.
\<close>

theorem density_failure_falls_back:
  assumes "manip (uri p) 200 (js_round (photo_height p / photo_width p * 200)) = None"
    and "0 < sw" "240 < sh"
  shows "analyzeTextDensity manip (uri p) (photo_width p) (photo_height p) sw sh = None \<and>
         onCapture_analyze manip flipAsync False sw sh (Camera (Some p)) =
           NavigatePreview p (detectTextArea sw sh
             (Some \<lparr>topOffset = Some 120, bottomOffset = Some 120,
                    area_widthRatio = Some 0.85, area_heightRatio = Some 0.4,
                    verticalPosition = Some PosUpperCenter\<rparr>)) \<and>
         (flipAsync (uri taken) = Some (uri p) \<and> p = taken\<lparr>uri := uri p\<rparr> \<longrightarrow>
            onCapture_analyze manip flipAsync True sw sh (Camera (Some taken)) =
              NavigatePreview p (detectTextArea sw sh
                (Some \<lparr>topOffset = Some 120, bottomOffset = Some 120,
                       area_widthRatio = Some 0.85, area_heightRatio = Some 0.4,
                       verticalPosition = Some PosUpperCenter\<rparr>))) \<and>
         inside (detectTextArea sw sh
             (Some \<lparr>topOffset = Some 120, bottomOffset = Some 120,
                    area_widthRatio = Some 0.85, area_heightRatio = Some 0.4,
                    verticalPosition = Some PosUpperCenter\<rparr>)) sw sh \<and>
         0 < rect_width (detectTextArea sw sh
             (Some \<lparr>topOffset = Some 120, bottomOffset = Some 120,
                    area_widthRatio = Some 0.85, area_heightRatio = Some 0.4,
                    verticalPosition = Some PosUpperCenter\<rparr>)) \<and>
         0 < rect_height (detectTextArea sw sh
             (Some \<lparr>topOffset = Some 120, bottomOffset = Some 120,
                    area_widthRatio = Some 0.85, area_heightRatio = Some 0.4,
                    verticalPosition = Some PosUpperCenter\<rparr>))"
proof -
  have n: "analyzeTextDensity manip (uri p) (photo_width p) (photo_height p) sw sh = None"
    using assms(1) by (simp add: analyzeTextDensity_cases)
  have a: "onCapture_analyze manip flipAsync False sw sh (Camera (Some p)) =
           NavigatePreview p (detectTextArea sw sh
             (Some \<lparr>topOffset = Some 120, bottomOffset = Some 120,
                    area_widthRatio = Some 0.85, area_heightRatio = Some 0.4,
                    verticalPosition = Some PosUpperCenter\<rparr>))"
    using n by (simp add: onCapture_analyze_def)
  have b: "onCapture_analyze manip flipAsync True sw sh (Camera (Some taken)) =
              NavigatePreview p (detectTextArea sw sh
                (Some \<lparr>topOffset = Some 120, bottomOffset = Some 120,
                       area_widthRatio = Some 0.85, area_heightRatio = Some 0.4,
                       verticalPosition = Some PosUpperCenter\<rparr>))"
    if "flipAsync (uri taken) = Some (uri p)" "p = taken\<lparr>uri := uri p\<rparr>"
  proof -
    have "taken\<lparr>uri := uri p\<rparr> = p" using that(2) by simp
    then show ?thesis using n that(1) by (simp add: onCapture_analyze_def)
  qed
  show ?thesis
    using n a b detectTextArea_capture_valid [OF assms(2,3)] by blast
qed

theorem density_failure_falls_back_witness:
  "analyzeTextDensity (\<lambda>u w h. None :: unit option) ''photo.jpg'' 3000 4000 400 800 = None \<and>
   onCapture_analyze (\<lambda>u w h. None :: unit option) (\<lambda>u. Some ''photo.jpg'') True 400 800
       (Camera (Some \<lparr>uri = ''raw.jpg'', photo_width = 3000, photo_height = 4000\<rparr>)) =
     NavigatePreview \<lparr>uri = ''photo.jpg'', photo_width = 3000, photo_height = 4000\<rparr>
       \<lparr>rect_x = 30, rect_y = 204, rect_width = 340, rect_height = 200\<rparr> \<and>
   inside \<lparr>rect_x = 30, rect_y = 204, rect_width = 340, rect_height = 200\<rparr> 400 800"
proof -
  have d: "detectTextArea 400 800
     (Some \<lparr>topOffset = Some 120, bottomOffset = Some 120, area_widthRatio = Some 0.85,
            area_heightRatio = Some 0.4, verticalPosition = Some PosUpperCenter\<rparr>) =
     \<lparr>rect_x = 30, rect_y = 204, rect_width = 340, rect_height = 200\<rparr>"
    by (simp add: detectTextArea_def or_default_def Let_def)
  show ?thesis
    using density_failure_falls_back
      [of "\<lambda>u w h. None :: unit option"
          "\<lparr>uri = ''photo.jpg'', photo_width = 3000, photo_height = 4000\<rparr>" 400 800
          "\<lambda>u. Some ''photo.jpg''"
          "\<lparr>uri = ''raw.jpg'', photo_width = 3000, photo_height = 4000\<rparr>",
       unfolded d]
    by simp
qed

section \<open>The detection box: what a gesture commits\<close>



text \<open>
  Claim C3 says that a resize by a corner handle never moves the opposite corner, for
  every start rectangle and every translation. In the detection box, pulling the
  top-left handle of the rectangle at (100, 200) of size 300 by 150 by (250, 10) in
  a 1000 by 2000 container gives the rectangle at (350, 210) of size 80 by 140: the
  width has stopped at the minimum while x went on with the finger, and the
  bottom-right corner has moved from (400, 350) to (430, 350). The bottom-right
  handle pulled by (- 250, - 100), stopped by the same minimum, leaves its opposite
  corner at (100, 200). The scenario of the claim, the top-left handle pulled by
  (20, 10), does give the rectangle at (120, 210) of size 280 by 140.
\<close>

theorem resize_moves_anchor:
  "corner_gesture TL 1000 2000 [(250, 10)]
      (at_rest \<lparr>rect_x = 100, rect_y = 200, rect_width = 300, rect_height = 150\<rparr>) =
     \<lparr>rect_x = 350, rect_y = 210, rect_width = 80, rect_height = 140\<rparr> \<and>
   anchor TL \<lparr>rect_x = 100, rect_y = 200, rect_width = 300, rect_height = 150\<rparr> =
     (400, 350) \<and>
   anchor TL \<lparr>rect_x = 350, rect_y = 210, rect_width = 80, rect_height = 140\<rparr> =
     (430, 350) \<and>
   corner_gesture BR 1000 2000 [(- 250, - 100)]
      (at_rest \<lparr>rect_x = 100, rect_y = 200, rect_width = 300, rect_height = 150\<rparr>) =
     \<lparr>rect_x = 100, rect_y = 200, rect_width = 80, rect_height = 80\<rparr> \<and>
   anchor BR \<lparr>rect_x = 100, rect_y = 200, rect_width = 80, rect_height = 80\<rparr> =
     anchor BR \<lparr>rect_x = 100, rect_y = 200, rect_width = 300, rect_height = 150\<rparr> \<and>
   corner_gesture TL 1000 2000 [(20, 10)]
      (at_rest \<lparr>rect_x = 100, rect_y = 200, rect_width = 300, rect_height = 150\<rparr>) =
     \<lparr>rect_x = 120, rect_y = 210, rect_width = 280, rect_height = 140\<rparr>"
  by code_simp

end
